theory Spec2Isabelle
  imports Main
begin

section \<open>Strings\<close>

text \<open>
  A Python \<open>str\<close> is a sequence of Unicode code points; it is modelled as the list of
  those code points, so that \<open>length\<close>, equality and list membership are Python's
  \<open>len\<close>, \<open>==\<close> and \<open>in\<close> on strings used as list elements.
\<close>

type_synonym ustr = "nat list"

text \<open>
  \<open>str.isspace\<close> on one character: the code points Python treats as whitespace. The same
  test decides \<open>str.strip()\<close> and the pattern \<open>\s\<close> of a \<open>str\<close> regular expression.
\<close>

definition isspace :: "nat \<Rightarrow> bool" where
  "isspace c \<longleftrightarrow>
     (9 \<le> c \<and> c \<le> 13) \<or> (28 \<le> c \<and> c \<le> 32) \<or> c = 133 \<or> c = 160 \<or> c = 5760 \<or>
     (8192 \<le> c \<and> c \<le> 8202) \<or> c = 8232 \<or> c = 8233 \<or> c = 8239 \<or> c = 8287 \<or>
     c = 12288"

definition strip :: "ustr \<Rightarrow> ustr" where
  "strip s = rev (dropWhile isspace (rev (dropWhile isspace s)))"

text \<open>\<open>sep.join(parts)\<close>.\<close>

fun join :: "ustr \<Rightarrow> ustr list \<Rightarrow> ustr" where
  "join sep [] = []"
| "join sep [x] = x"
| "join sep (x # y # ys) = x @ sep @ join sep (y # ys)"

section \<open>The document tree\<close>

text \<open>
  A node of the document tree: the dictionary with keys \<open>level\<close>, \<open>content\<close> and
  \<open>children\<close>. The root dictionary that \<open>create_chunks_from_tree\<close> builds has no
  \<open>level\<close> key; it is given the level \<open>-1\<close> of the parser's root, and no function of
  part 2 reads a level.
\<close>

datatype node = Node (level: int) (content: ustr) (children: "node list")

text \<open>
  The dictionary returned by the parser. Of the metadata, the processing time is left
  out (it is the wall clock).
\<close>

record tree_data =
  ten_van_ban :: ustr
  file_goc :: ustr
  co_phu_luc :: bool
  noi_dung_khong_luu :: "ustr list"
  tree_content :: "node list"

section \<open>Part 1 of chunking.py: parsing the lines into a tree\<close>

subsection \<open>Case folding and word characters\<close>

text \<open>
  The lowercase mapping of one code point, as \<open>re.IGNORECASE\<close> uses it. The table covers
  Basic Latin, Latin-1 Supplement, Latin Extended-A, the letters O and U with horn,
  Latin Extended Additional (these blocks hold the Vietnamese alphabet) and the Kelvin
  and Angstrom signs; every other code point is mapped to itself.
\<close>

definition to_lower :: "nat \<Rightarrow> nat" where
  "to_lower c =
     (if 65 \<le> c \<and> c \<le> 90 then c + 32
      else if 192 \<le> c \<and> c \<le> 222 \<and> c \<noteq> 215 then c + 32
      else if c = 304 then 105
      else if c = 376 then 255
      else if (256 \<le> c \<and> c \<le> 311 \<or> 330 \<le> c \<and> c \<le> 375) \<and> even c then c + 1
      else if (313 \<le> c \<and> c \<le> 328 \<or> 377 \<le> c \<and> c \<le> 382) \<and> odd c then c + 1
      else if c = 416 \<or> c = 431 then c + 1
      else if c = 7838 then 223
      else if (7680 \<le> c \<and> c \<le> 7829 \<or> 7840 \<le> c \<and> c \<le> 7935) \<and> even c then c + 1
      else if c = 8490 then 107
      else if c = 8491 then 229
      else c)"

text \<open>
  \<open>str.lower()\<close>: the lowercase mapping of each character; capital I with dot above
  (U+0130) becomes two characters.
\<close>

definition lower :: "ustr \<Rightarrow> ustr" where
  "lower s = concat (map (\<lambda>c. if c = 304 then [105, 775] else [to_lower c]) s)"

text \<open>
  The characters that \<open>re.IGNORECASE\<close> treats as equal to a lowercased pattern
  character beyond its own case variants (\<open>_EXTRA_CASES\<close> of the \<open>re\<close> module),
  for the Latin letters.
\<close>

definition extra_cases :: "nat \<Rightarrow> nat list" where
  "extra_cases lo =
     (if lo = 105 then [305] else if lo = 115 then [383] else if lo = 181 then [956]
      else if lo = 305 then [105] else if lo = 383 then [115]
      else if lo = 7777 then [7835] else if lo = 7835 then [7777] else [])"

text \<open>
  The word characters of \<open>\b\<close> and \<open>\w\<close>: the code points that are alphanumeric
  (\<open>str.isalnum\<close>) and the underscore. \<open>word_ranges\<close> lists them as inclusive ranges,
  for the whole code space, from the Unicode 14.0 database that CPython 3.11 carries.
\<close>

definition word_ranges :: "(nat \<times> nat) list" where
  "word_ranges =
    [(48, 57), (65, 90), (95, 95), (97, 122), (170, 170), (178, 179), (181, 181), (185, 186),
     (188, 190), (192, 214), (216, 246), (248, 705), (710, 721), (736, 740), (748, 748),
     (750, 750), (880, 884), (886, 887), (890, 893), (895, 895), (902, 902), (904, 906),
     (908, 908), (910, 929), (931, 1013), (1015, 1153), (1162, 1327), (1329, 1366),
     (1369, 1369), (1376, 1416), (1488, 1514), (1519, 1522), (1568, 1610), (1632, 1641),
     (1646, 1647), (1649, 1747), (1749, 1749), (1765, 1766), (1774, 1788), (1791, 1791),
     (1808, 1808), (1810, 1839), (1869, 1957), (1969, 1969), (1984, 2026), (2036, 2037),
     (2042, 2042), (2048, 2069), (2074, 2074), (2084, 2084), (2088, 2088), (2112, 2136),
     (2144, 2154), (2160, 2183), (2185, 2190), (2208, 2249), (2308, 2361), (2365, 2365),
     (2384, 2384), (2392, 2401), (2406, 2415), (2417, 2432), (2437, 2444), (2447, 2448),
     (2451, 2472), (2474, 2480), (2482, 2482), (2486, 2489), (2493, 2493), (2510, 2510),
     (2524, 2525), (2527, 2529), (2534, 2545), (2548, 2553), (2556, 2556), (2565, 2570),
     (2575, 2576), (2579, 2600), (2602, 2608), (2610, 2611), (2613, 2614), (2616, 2617),
     (2649, 2652), (2654, 2654), (2662, 2671), (2674, 2676), (2693, 2701), (2703, 2705),
     (2707, 2728), (2730, 2736), (2738, 2739), (2741, 2745), (2749, 2749), (2768, 2768),
     (2784, 2785), (2790, 2799), (2809, 2809), (2821, 2828), (2831, 2832), (2835, 2856),
     (2858, 2864), (2866, 2867), (2869, 2873), (2877, 2877), (2908, 2909), (2911, 2913),
     (2918, 2927), (2929, 2935), (2947, 2947), (2949, 2954), (2958, 2960), (2962, 2965),
     (2969, 2970), (2972, 2972), (2974, 2975), (2979, 2980), (2984, 2986), (2990, 3001),
     (3024, 3024), (3046, 3058), (3077, 3084), (3086, 3088), (3090, 3112), (3114, 3129),
     (3133, 3133), (3160, 3162), (3165, 3165), (3168, 3169), (3174, 3183), (3192, 3198),
     (3200, 3200), (3205, 3212), (3214, 3216), (3218, 3240), (3242, 3251), (3253, 3257),
     (3261, 3261), (3293, 3294), (3296, 3297), (3302, 3311), (3313, 3314), (3332, 3340),
     (3342, 3344), (3346, 3386), (3389, 3389), (3406, 3406), (3412, 3414), (3416, 3425),
     (3430, 3448), (3450, 3455), (3461, 3478), (3482, 3505), (3507, 3515), (3517, 3517),
     (3520, 3526), (3558, 3567), (3585, 3632), (3634, 3635), (3648, 3654), (3664, 3673),
     (3713, 3714), (3716, 3716), (3718, 3722), (3724, 3747), (3749, 3749), (3751, 3760),
     (3762, 3763), (3773, 3773), (3776, 3780), (3782, 3782), (3792, 3801), (3804, 3807),
     (3840, 3840), (3872, 3891), (3904, 3911), (3913, 3948), (3976, 3980), (4096, 4138),
     (4159, 4169), (4176, 4181), (4186, 4189), (4193, 4193), (4197, 4198), (4206, 4208),
     (4213, 4225), (4238, 4238), (4240, 4249), (4256, 4293), (4295, 4295), (4301, 4301),
     (4304, 4346), (4348, 4680), (4682, 4685), (4688, 4694), (4696, 4696), (4698, 4701),
     (4704, 4744), (4746, 4749), (4752, 4784), (4786, 4789), (4792, 4798), (4800, 4800),
     (4802, 4805), (4808, 4822), (4824, 4880), (4882, 4885), (4888, 4954), (4969, 4988),
     (4992, 5007), (5024, 5109), (5112, 5117), (5121, 5740), (5743, 5759), (5761, 5786),
     (5792, 5866), (5870, 5880), (5888, 5905), (5919, 5937), (5952, 5969), (5984, 5996),
     (5998, 6000), (6016, 6067), (6103, 6103), (6108, 6108), (6112, 6121), (6128, 6137),
     (6160, 6169), (6176, 6264), (6272, 6276), (6279, 6312), (6314, 6314), (6320, 6389),
     (6400, 6430), (6470, 6509), (6512, 6516), (6528, 6571), (6576, 6601), (6608, 6618),
     (6656, 6678), (6688, 6740), (6784, 6793), (6800, 6809), (6823, 6823), (6917, 6963),
     (6981, 6988), (6992, 7001), (7043, 7072), (7086, 7141), (7168, 7203), (7232, 7241),
     (7245, 7293), (7296, 7304), (7312, 7354), (7357, 7359), (7401, 7404), (7406, 7411),
     (7413, 7414), (7418, 7418), (7424, 7615), (7680, 7957), (7960, 7965), (7968, 8005),
     (8008, 8013), (8016, 8023), (8025, 8025), (8027, 8027), (8029, 8029), (8031, 8061),
     (8064, 8116), (8118, 8124), (8126, 8126), (8130, 8132), (8134, 8140), (8144, 8147),
     (8150, 8155), (8160, 8172), (8178, 8180), (8182, 8188), (8304, 8305), (8308, 8313),
     (8319, 8329), (8336, 8348), (8450, 8450), (8455, 8455), (8458, 8467), (8469, 8469),
     (8473, 8477), (8484, 8484), (8486, 8486), (8488, 8488), (8490, 8493), (8495, 8505),
     (8508, 8511), (8517, 8521), (8526, 8526), (8528, 8585), (9312, 9371), (9450, 9471),
     (10102, 10131), (11264, 11492), (11499, 11502), (11506, 11507), (11517, 11517),
     (11520, 11557), (11559, 11559), (11565, 11565), (11568, 11623), (11631, 11631),
     (11648, 11670), (11680, 11686), (11688, 11694), (11696, 11702), (11704, 11710),
     (11712, 11718), (11720, 11726), (11728, 11734), (11736, 11742), (11823, 11823),
     (12293, 12295), (12321, 12329), (12337, 12341), (12344, 12348), (12353, 12438),
     (12445, 12447), (12449, 12538), (12540, 12543), (12549, 12591), (12593, 12686),
     (12690, 12693), (12704, 12735), (12784, 12799), (12832, 12841), (12872, 12879),
     (12881, 12895), (12928, 12937), (12977, 12991), (13312, 19903), (19968, 42124),
     (42192, 42237), (42240, 42508), (42512, 42539), (42560, 42606), (42623, 42653),
     (42656, 42735), (42775, 42783), (42786, 42888), (42891, 42954), (42960, 42961),
     (42963, 42963), (42965, 42969), (42994, 43009), (43011, 43013), (43015, 43018),
     (43020, 43042), (43056, 43061), (43072, 43123), (43138, 43187), (43216, 43225),
     (43250, 43255), (43259, 43259), (43261, 43262), (43264, 43301), (43312, 43334),
     (43360, 43388), (43396, 43442), (43471, 43481), (43488, 43492), (43494, 43518),
     (43520, 43560), (43584, 43586), (43588, 43595), (43600, 43609), (43616, 43638),
     (43642, 43642), (43646, 43695), (43697, 43697), (43701, 43702), (43705, 43709),
     (43712, 43712), (43714, 43714), (43739, 43741), (43744, 43754), (43762, 43764),
     (43777, 43782), (43785, 43790), (43793, 43798), (43808, 43814), (43816, 43822),
     (43824, 43866), (43868, 43881), (43888, 44002), (44016, 44025), (44032, 55203),
     (55216, 55238), (55243, 55291), (63744, 64109), (64112, 64217), (64256, 64262),
     (64275, 64279), (64285, 64285), (64287, 64296), (64298, 64310), (64312, 64316),
     (64318, 64318), (64320, 64321), (64323, 64324), (64326, 64433), (64467, 64829),
     (64848, 64911), (64914, 64967), (65008, 65019), (65136, 65140), (65142, 65276),
     (65296, 65305), (65313, 65338), (65345, 65370), (65382, 65470), (65474, 65479),
     (65482, 65487), (65490, 65495), (65498, 65500), (65536, 65547), (65549, 65574),
     (65576, 65594), (65596, 65597), (65599, 65613), (65616, 65629), (65664, 65786),
     (65799, 65843), (65856, 65912), (65930, 65931), (66176, 66204), (66208, 66256),
     (66273, 66299), (66304, 66339), (66349, 66378), (66384, 66421), (66432, 66461),
     (66464, 66499), (66504, 66511), (66513, 66517), (66560, 66717), (66720, 66729),
     (66736, 66771), (66776, 66811), (66816, 66855), (66864, 66915), (66928, 66938),
     (66940, 66954), (66956, 66962), (66964, 66965), (66967, 66977), (66979, 66993),
     (66995, 67001), (67003, 67004), (67072, 67382), (67392, 67413), (67424, 67431),
     (67456, 67461), (67463, 67504), (67506, 67514), (67584, 67589), (67592, 67592),
     (67594, 67637), (67639, 67640), (67644, 67644), (67647, 67669), (67672, 67702),
     (67705, 67742), (67751, 67759), (67808, 67826), (67828, 67829), (67835, 67867),
     (67872, 67897), (67968, 68023), (68028, 68047), (68050, 68096), (68112, 68115),
     (68117, 68119), (68121, 68149), (68160, 68168), (68192, 68222), (68224, 68255),
     (68288, 68295), (68297, 68324), (68331, 68335), (68352, 68405), (68416, 68437),
     (68440, 68466), (68472, 68497), (68521, 68527), (68608, 68680), (68736, 68786),
     (68800, 68850), (68858, 68899), (68912, 68921), (69216, 69246), (69248, 69289),
     (69296, 69297), (69376, 69415), (69424, 69445), (69457, 69460), (69488, 69505),
     (69552, 69579), (69600, 69622), (69635, 69687), (69714, 69743), (69745, 69746),
     (69749, 69749), (69763, 69807), (69840, 69864), (69872, 69881), (69891, 69926),
     (69942, 69951), (69956, 69956), (69959, 69959), (69968, 70002), (70006, 70006),
     (70019, 70066), (70081, 70084), (70096, 70106), (70108, 70108), (70113, 70132),
     (70144, 70161), (70163, 70187), (70272, 70278), (70280, 70280), (70282, 70285),
     (70287, 70301), (70303, 70312), (70320, 70366), (70384, 70393), (70405, 70412),
     (70415, 70416), (70419, 70440), (70442, 70448), (70450, 70451), (70453, 70457),
     (70461, 70461), (70480, 70480), (70493, 70497), (70656, 70708), (70727, 70730),
     (70736, 70745), (70751, 70753), (70784, 70831), (70852, 70853), (70855, 70855),
     (70864, 70873), (71040, 71086), (71128, 71131), (71168, 71215), (71236, 71236),
     (71248, 71257), (71296, 71338), (71352, 71352), (71360, 71369), (71424, 71450),
     (71472, 71483), (71488, 71494), (71680, 71723), (71840, 71922), (71935, 71942),
     (71945, 71945), (71948, 71955), (71957, 71958), (71960, 71983), (71999, 71999),
     (72001, 72001), (72016, 72025), (72096, 72103), (72106, 72144), (72161, 72161),
     (72163, 72163), (72192, 72192), (72203, 72242), (72250, 72250), (72272, 72272),
     (72284, 72329), (72349, 72349), (72368, 72440), (72704, 72712), (72714, 72750),
     (72768, 72768), (72784, 72812), (72818, 72847), (72960, 72966), (72968, 72969),
     (72971, 73008), (73030, 73030), (73040, 73049), (73056, 73061), (73063, 73064),
     (73066, 73097), (73112, 73112), (73120, 73129), (73440, 73458), (73648, 73648),
     (73664, 73684), (73728, 74649), (74752, 74862), (74880, 75075), (77712, 77808),
     (77824, 78894), (82944, 83526), (92160, 92728), (92736, 92766), (92768, 92777),
     (92784, 92862), (92864, 92873), (92880, 92909), (92928, 92975), (92992, 92995),
     (93008, 93017), (93019, 93025), (93027, 93047), (93053, 93071), (93760, 93846),
     (93952, 94026), (94032, 94032), (94099, 94111), (94176, 94177), (94179, 94179),
     (94208, 100343), (100352, 101589), (101632, 101640), (110576, 110579), (110581, 110587),
     (110589, 110590), (110592, 110882), (110928, 110930), (110948, 110951), (110960, 111355),
     (113664, 113770), (113776, 113788), (113792, 113800), (113808, 113817), (119520, 119539),
     (119648, 119672), (119808, 119892), (119894, 119964), (119966, 119967), (119970, 119970),
     (119973, 119974), (119977, 119980), (119982, 119993), (119995, 119995), (119997, 120003),
     (120005, 120069), (120071, 120074), (120077, 120084), (120086, 120092), (120094, 120121),
     (120123, 120126), (120128, 120132), (120134, 120134), (120138, 120144), (120146, 120485),
     (120488, 120512), (120514, 120538), (120540, 120570), (120572, 120596), (120598, 120628),
     (120630, 120654), (120656, 120686), (120688, 120712), (120714, 120744), (120746, 120770),
     (120772, 120779), (120782, 120831), (122624, 122654), (123136, 123180), (123191, 123197),
     (123200, 123209), (123214, 123214), (123536, 123565), (123584, 123627), (123632, 123641),
     (124896, 124902), (124904, 124907), (124909, 124910), (124912, 124926), (124928, 125124),
     (125127, 125135), (125184, 125251), (125259, 125259), (125264, 125273), (126065, 126123),
     (126125, 126127), (126129, 126132), (126209, 126253), (126255, 126269), (126464, 126467),
     (126469, 126495), (126497, 126498), (126500, 126500), (126503, 126503), (126505, 126514),
     (126516, 126519), (126521, 126521), (126523, 126523), (126530, 126530), (126535, 126535),
     (126537, 126537), (126539, 126539), (126541, 126543), (126545, 126546), (126548, 126548),
     (126551, 126551), (126553, 126553), (126555, 126555), (126557, 126557), (126559, 126559),
     (126561, 126562), (126564, 126564), (126567, 126570), (126572, 126578), (126580, 126583),
     (126585, 126588), (126590, 126590), (126592, 126601), (126603, 126619), (126625, 126627),
     (126629, 126633), (126635, 126651), (127232, 127244), (130032, 130041), (131072, 173791),
     (173824, 177976), (177984, 178205), (178208, 183969), (183984, 191456), (194560, 195101),
     (196608, 201546)]"

definition is_word :: "nat \<Rightarrow> bool" where
  "is_word c = list_ex (\<lambda>(lo, hi). lo \<le> c \<and> c \<le> hi) word_ranges"

subsection \<open>Regular expressions\<close>

text \<open>
  The constructs the patterns of the source use. Repetition is applied to single
  characters only, as in the source. All patterns are used with \<open>match\<close>, which anchors
  at the start of the string, so the leading \<open>^\<close> is not represented.
\<close>

datatype atom =
    Lit nat
  | Cls "nat list"
  | Space

datatype rx =
    Atom atom
  | Plus atom
  | Rep nat nat atom
  | WordB
  | Eps
  | Seq rx rx
  | Alt rx rx
  | Opt rx
  | NegLook rx

definition ci_eq :: "nat \<Rightarrow> nat \<Rightarrow> bool" where
  "ci_eq p c \<longleftrightarrow> to_lower c = to_lower p \<or> to_lower c \<in> set (extra_cases (to_lower p))"

fun atom_match :: "bool \<Rightarrow> atom \<Rightarrow> nat \<Rightarrow> bool" where
  "atom_match ic (Lit p) c = (if ic then ci_eq p c else c = p)"
| "atom_match ic (Cls ps) c = (if ic then list_ex (\<lambda>p. ci_eq p c) ps else c \<in> set ps)"
| "atom_match ic Space c = isspace c"

text \<open>
  A configuration is the character before the current position (if any) and the rest of
  the input. \<open>many ic a n cfg\<close> lists the configurations reached by consuming between
  one and \<open>n\<close> characters that match \<open>a\<close>.
\<close>

type_synonym cfg = "nat option \<times> ustr"

fun many :: "bool \<Rightarrow> atom \<Rightarrow> nat \<Rightarrow> cfg \<Rightarrow> cfg list" where
  "many ic a 0 cfg = []"
| "many ic a (Suc n) (p, []) = []"
| "many ic a (Suc n) (p, c # r) =
     (if atom_match ic a c then (Some c, r) # many ic a n (Some c, r) else [])"

definition word_boundary :: "cfg \<Rightarrow> bool" where
  "word_boundary cfg =
     ((case fst cfg of None \<Rightarrow> False | Some p \<Rightarrow> is_word p) \<noteq>
      (case snd cfg of [] \<Rightarrow> False | c # _ \<Rightarrow> is_word c))"

text \<open>
  \<open>run ic r cfg\<close> lists the configurations in which a match of \<open>r\<close> that starts at
  \<open>cfg\<close> can end; \<open>ic\<close> is the flag \<open>re.IGNORECASE\<close>. The pattern matches when the
  list is not empty.
\<close>

fun run :: "bool \<Rightarrow> rx \<Rightarrow> cfg \<Rightarrow> cfg list" where
  "run ic (Atom a) cfg = many ic a 1 cfg"
| "run ic (Plus a) cfg = many ic a (length (snd cfg)) cfg"
| "run ic (Rep m n a) cfg = (if m = 0 then [cfg] else []) @ drop (m - 1) (many ic a n cfg)"
| "run ic WordB cfg = (if word_boundary cfg then [cfg] else [])"
| "run ic Eps cfg = [cfg]"
| "run ic (Seq r1 r2) cfg = concat (map (run ic r2) (run ic r1 cfg))"
| "run ic (Alt r1 r2) cfg = run ic r1 cfg @ run ic r2 cfg"
| "run ic (Opt r) cfg = run ic r cfg @ [cfg]"
| "run ic (NegLook r) cfg = (if run ic r cfg = [] then [cfg] else [])"

definition re_match :: "bool \<Rightarrow> rx \<Rightarrow> ustr \<Rightarrow> bool" where
  "re_match ic r s \<longleftrightarrow> run ic r (None, s) \<noteq> []"

fun lits :: "ustr \<Rightarrow> rx" where
  "lits [] = Eps"
| "lits (c # cs) = Seq (Atom (Lit c)) (lits cs)"

fun seqs :: "rx list \<Rightarrow> rx" where
  "seqs [] = Eps"
| "seqs (r # rs) = Seq r (seqs rs)"

fun alts :: "rx list \<Rightarrow> rx" where
  "alts [] = Atom (Cls [])"
| "alts [r] = r"
| "alts (r # rs) = Alt r (alts rs)"

subsection \<open>The words and patterns of the source\<close>

definition w_phan :: ustr where
  "w_phan = [112, 104, 7847, 110]"

definition w_thu :: ustr where
  "w_thu = [116, 104, 7913]"

definition w_chuong :: ustr where
  "w_chuong = [99, 104, 432, 417, 110, 103]"

definition w_muc :: ustr where
  "w_muc = [109, 7909, 99]"

definition w_tieu :: ustr where
  "w_tieu = [116, 105, 7875, 117]"

definition w_dieu :: ustr where
  "w_dieu = [273, 105, 7873, 117]"

definition w_khoan :: ustr where
  "w_khoan = [107, 104, 111, 7843, 110]"

definition w_tieu_khoan :: ustr where
  "w_tieu_khoan = [116, 105, 7875, 117, 32, 107, 104, 111, 7843, 110]"

definition w_phu_luc :: ustr where
  "w_phu_luc = [112, 104, 7909, 32, 108, 7909, 99]"

definition ordinal_words :: "ustr list" where
  "ordinal_words =
    [[110, 104, 7845, 116],
     [109, 7897, 116],
     [104, 97, 105],
     [98, 97],
     [98, 7889, 110],
     [110, 259, 109],
     [115, 225, 117],
     [98, 7843, 121],
     [116, 225, 109],
     [99, 104, 237, 110],
     [109, 432, 7901, 105],
     [109, 432, 7901, 105, 32, 109, 7897, 116],
     [109, 432, 7901, 105, 32, 104, 97, 105],
     [109, 432, 7901, 105, 32, 98, 97],
     [109, 432, 7901, 105, 32, 98, 7889, 110],
     [109, 432, 7901, 105, 32, 108, 259, 109],
     [109, 432, 7901, 105, 32, 115, 225, 117],
     [109, 432, 7901, 105, 32, 98, 7843, 121],
     [109, 432, 7901, 105, 32, 116, 225, 109],
     [109, 432, 7901, 105, 32, 99, 104, 237, 110],
     [104, 97, 105, 32, 109, 432, 417, 105],
     [98, 97, 32, 109, 432, 417, 105],
     [98, 7889, 110, 32, 109, 432, 417, 105],
     [110, 259, 109, 32, 109, 432, 417, 105],
     [115, 225, 117, 32, 109, 432, 417, 105],
     [98, 7843, 121, 32, 109, 432, 417, 105],
     [116, 225, 109, 32, 109, 432, 417, 105],
     [99, 104, 237, 110, 32, 109, 432, 417, 105],
     [116, 114, 259, 109]]"

definition doc_keywords :: "ustr list" where
  "doc_keywords =
    [[98, 7897, 32, 108, 117, 7853, 116],
     [99, 104, 7881, 32, 116, 104, 7883],
     [104, 105, 7871, 110, 32, 112, 104, 225, 112],
     [108, 7879, 110, 104],
     [108, 117, 7853, 116],
     [110, 103, 104, 7883, 32, 273, 7883, 110, 104],
     [110, 103, 104, 7883, 32, 113, 117, 121, 7871, 116, 32, 108, 105, 234, 110, 32, 116, 7883, 99, 104],
     [110, 103, 104, 7883, 32, 113, 117, 121, 7871, 116],
     [112, 104, 225, 112, 32, 108, 7879, 110, 104],
     [113, 117, 121, 7871, 116, 32, 273, 7883, 110, 104],
     [116, 104, 244, 110, 103, 32, 116, 432, 32, 108, 105, 234, 110, 32, 116, 7883, 99, 104],
     [116, 104, 244, 110, 103, 32, 116, 432]]"

definition unknown_title :: ustr where
  "unknown_title = [75, 104, 244, 110, 103, 32, 120, 225, 99, 32, 273, 7883, 110, 104]"

definition digit :: atom where
  "digit = Cls [48..<58]"

definition roman_letter :: atom where
  "roman_letter = Cls [73, 86, 88, 76, 67, 68, 77]"

definition delimiter :: atom where
  "delimiter = Cls [46, 41]"

text \<open>The tail \<open>(th\<dots>\s+)?((?:[IVXLCDM]+)|(?:[0-9]{1,2}))\b\<close> shared by four patterns.\<close>

definition numbering :: rx where
  "numbering =
     seqs [Opt (seqs [lits w_thu, Plus Space]),
           Alt (Plus roman_letter) (Rep 1 2 digit),
           WordB]"

definition rx_phan :: rx where
  "rx_phan = seqs [lits w_phan, Plus Space, numbering]"

definition rx_phan_thu :: rx where
  "rx_phan_thu =
     seqs [lits w_phan, Plus Space, lits w_thu, Plus Space, alts (map lits ordinal_words), WordB]"

definition rx_chuong :: rx where
  "rx_chuong = seqs [lits w_chuong, Plus Space, Plus (Cls ([73, 86, 88, 76, 67, 68, 77] @ [48..<58]))]"

definition rx_muc :: rx where
  "rx_muc = seqs [lits w_muc, Plus Space, numbering]"

definition rx_tieu_muc :: rx where
  "rx_tieu_muc = seqs [lits w_tieu, Plus Space, lits w_muc, Plus Space, numbering]"

definition rx_dieu :: rx where
  "rx_dieu = seqs [lits w_dieu, Plus Space, Plus digit]"

definition rx_khoan :: rx where
  "rx_khoan = seqs [lits w_khoan, Plus Space, Plus digit]"

definition rx_tieu_khoan :: rx where
  "rx_tieu_khoan = seqs [lits w_tieu_khoan, Plus Space, Plus digit]"

definition rx_upper_letter :: rx where
  "rx_upper_letter =
     seqs [NegLook (seqs [alts [lits [73], lits [73, 73], lits [73, 73, 73]], Atom delimiter]),
           Atom (Cls ([65..<91] @ [272, 202, 212, 212, 193, 192, 7842, 7840, 195, 7846, 7844, 7852])),
           Atom delimiter]"

definition rx_upper_roman :: rx where
  "rx_upper_roman =
     seqs [alts [Rep 1 3 (Lit 73), lits [73, 86], lits [86], lits [86, 73], lits [86, 73, 73],
                 lits [86, 73, 73, 73], lits [73, 88], lits [88]],
           Atom delimiter]"

definition rx_number :: rx where
  "rx_number = seqs [Plus digit, Atom delimiter]"

definition rx_lower_letter :: rx where
  "rx_lower_letter =
     seqs [NegLook (seqs [alts [lits [105, 105], lits [105, 105, 105]], Atom delimiter]),
           Atom (Cls ([97..<123] @ [273, 234, 244, 234, 225, 224, 7843, 7841, 227, 7847, 7845, 7853])),
           Atom delimiter]"

definition rx_lower_roman :: rx where
  "rx_lower_roman =
     seqs [alts [lits [105, 105], lits [105, 105, 105], lits [105, 118], lits [118],
                 lits [118, 105], lits [118, 105, 105], lits [118, 105, 105, 105],
                 lits [105, 120], lits [120]],
           Atom delimiter]"

text \<open>The table: pattern, level, and whether the flag is \<open>re.IGNORECASE\<close>.\<close>

definition REGEX_LEVEL_MAP :: "(rx \<times> int \<times> bool) list" where
  "REGEX_LEVEL_MAP =
     [(rx_phan, 1, True),
      (rx_phan_thu, 1, True),
      (rx_chuong, 2, True),
      (rx_muc, 3, True),
      (rx_tieu_muc, 4, True),
      (rx_dieu, 5, True),
      (rx_khoan, 6, True),
      (rx_tieu_khoan, 7, True),
      (rx_upper_letter, 10, False),
      (rx_upper_roman, 11, False),
      (rx_number, 12, True),
      (rx_lower_letter, 13, False),
      (rx_lower_roman, 14, False)]"

definition appendix_regex :: rx where
  "appendix_regex = lits w_phu_luc"

text \<open>
  The inner loop over the compiled table: the level of the first pattern that matches
  the line, if any.
\<close>

fun first_match :: "(rx \<times> int \<times> bool) list \<Rightarrow> ustr \<Rightarrow> int option" where
  "first_match [] line = None"
| "first_match ((r, lvl, ic) # rest) line =
     (if re_match ic r line then Some lvl else first_match rest line)"

definition match_level :: "ustr \<Rightarrow> int option" where
  "match_level line = first_match REGEX_LEVEL_MAP line"

subsection \<open>Title and appendix\<close>

text \<open>\<open>kw in s\<close> on strings: \<open>kw\<close> occurs in \<open>s\<close> as a contiguous substring.\<close>

fun starts_with :: "ustr \<Rightarrow> ustr \<Rightarrow> bool" where
  "starts_with [] s = True"
| "starts_with (k # ks) [] = False"
| "starts_with (k # ks) (c # s) = (k = c \<and> starts_with ks s)"

fun contains :: "ustr \<Rightarrow> ustr \<Rightarrow> bool" where
  "contains kw [] = (kw = [])"
| "contains kw (c # s) = (starts_with kw (c # s) \<or> contains kw s)"

text \<open>
  The title loop over \<open>enumerate(lines[:20])\<close>: \<open>i\<close> is the index of the first line of
  \<open>front\<close>, which is what is left of \<open>lines[:20]\<close>.
\<close>

fun find_title :: "ustr list \<Rightarrow> nat \<Rightarrow> ustr list \<Rightarrow> ustr option" where
  "find_title lines i [] = None"
| "find_title lines i (line # front) =
     (if list_ex (\<lambda>kw. contains kw (lower line)) doc_keywords then
        (if i + 1 < length lines then Some (line @ [32] @ lines ! (i + 1)) else Some line)
      else find_title lines (i + 1) front)"

text \<open>The appendix loop: the index of the first line that the appendix pattern matches.\<close>

fun find_appendix :: "ustr list \<Rightarrow> nat \<Rightarrow> nat option" where
  "find_appendix [] i = None"
| "find_appendix (line # rest) i =
     (if re_match True appendix_regex (strip (lower line)) then Some i
      else find_appendix rest (i + 1))"

subsection \<open>Building the tree\<close>

text \<open>
  The parser mutates node dictionaries that are shared between the stack and the
  \<open>children\<close> list of their parent. The model keeps the nodes in a store, a list indexed
  by the order of creation; the root is at index 0, and a reference to a node is its
  index. The stack is written with its top at the head.
\<close>

record pnode =
  p_level :: int
  p_content :: ustr
  p_children :: "nat list"

record builder =
  nodes :: "pnode list"
  stack :: "nat list"
  non_saved_lines :: "ustr list"

definition init_builder :: builder where
  "init_builder =
     \<lparr>nodes = [\<lparr>p_level = -1, p_content = [], p_children = []\<rparr>], stack = [],
      non_saved_lines = []\<rparr>"

text \<open>A line that a pattern of level \<open>current_level\<close> matched.\<close>

definition add_node :: "int \<Rightarrow> ustr \<Rightarrow> builder \<Rightarrow> builder" where
  "add_node current_level line b =
     (let stk = dropWhile (\<lambda>i. p_level (nodes b ! i) \<ge> current_level) (stack b);
          parent = (case stk of [] \<Rightarrow> 0 | tp # _ \<Rightarrow> tp);
          new_node = length (nodes b);
          ns = (nodes b)
                 [parent := (nodes b ! parent)
                    \<lparr>p_children := p_children (nodes b ! parent) @ [new_node]\<rparr>]
      in b\<lparr>nodes := ns @ [\<lparr>p_level = current_level, p_content = line, p_children = []\<rparr>],
           stack := new_node # stk\<rparr>)"

text \<open>A line that no pattern matched.\<close>

definition add_text :: "ustr \<Rightarrow> builder \<Rightarrow> builder" where
  "add_text line b =
     (case stack b of
        [] \<Rightarrow> b\<lparr>non_saved_lines := non_saved_lines b @ [line]\<rparr>
      | tp # _ \<Rightarrow>
          b\<lparr>nodes := (nodes b)
              [tp := (nodes b ! tp)
                 \<lparr>p_content :=
                    (if p_content (nodes b ! tp) \<noteq> [] then p_content (nodes b ! tp) @ [32] @ line
                     else line)\<rparr>]\<rparr>)"

definition process_line :: "builder \<Rightarrow> ustr \<Rightarrow> builder" where
  "process_line b line =
     (case match_level line of
        Some current_level \<Rightarrow> add_node current_level line b
      | None \<Rightarrow> add_text line b)"

definition build :: "ustr list \<Rightarrow> builder" where
  "build lines = foldl process_line init_builder lines"

text \<open>
  The tree below the node at index \<open>i\<close> of the store, as a value. A child reference is
  followed when it points to a node created after \<open>i\<close>; the stores that \<open>build\<close>
  produces have no other references (lemma \<open>build_children_forward\<close>).
\<close>

function tree_of :: "pnode list \<Rightarrow> nat \<Rightarrow> node" where
  "tree_of ns i =
     Node (p_level (ns ! i)) (p_content (ns ! i))
       (map (tree_of ns) (filter (\<lambda>c. i < c \<and> c < length ns) (p_children (ns ! i))))"
  by pat_completeness auto
termination
  by (relation "measure (\<lambda>(ns, i). length ns - i)") auto

declare tree_of.simps [simp del]

text \<open>
  \<open>parse_legal_document_to_dict\<close>, from the list \<open>lines\<close> of stripped non-empty lines
  that it reads from the file; \<open>file_name\<close> is the base name of the path.
\<close>

definition parse_legal_document_to_dict :: "ustr \<Rightarrow> ustr list \<Rightarrow> tree_data" where
  "parse_legal_document_to_dict file_name lines =
     (let title_found = find_title lines 0 (take 20 lines);
          appendix_start_index = find_appendix lines 0;
          lines' = (case appendix_start_index of None \<Rightarrow> lines | Some k \<Rightarrow> take k lines);
          b = build lines'
      in \<lparr>ten_van_ban =
            (case title_found of
               None \<Rightarrow> unknown_title
             | Some t \<Rightarrow> if t \<noteq> [] then t else unknown_title),
          file_goc = file_name,
          co_phu_luc = (appendix_start_index \<noteq> None),
          noi_dung_khong_luu = non_saved_lines b,
          tree_content = children (tree_of (nodes b) 0)\<rparr>)"

section \<open>Part 2 of chunking.py: chunking with token optimisation\<close>

text \<open>
  The characters of the class \<open>[.!?\<dots>]\<close> in \<open>ensure_punctuation\<close>: full stop, exclamation
  mark, question mark, ideographic full stop (U+3002), colon, fullwidth colon (U+FF1A).
\<close>

definition terminal_marks :: "nat list" where
  "terminal_marks = [46, 33, 63, 12290, 58, 65306]"

text \<open>
  \<open>re.search(r'[.!?\<dots>]$', s)\<close>: the pattern \<open>$\<close> matches at the end of the string and also
  just before a newline that ends the string, so the search succeeds when the last
  character is a terminal mark, or when the string ends with a terminal mark followed by
  one newline.
\<close>

definition ends_with_mark :: "ustr \<Rightarrow> bool" where
  "ends_with_mark s =
     (case rev s of
        [] \<Rightarrow> False
      | c # r \<Rightarrow> c \<in> set terminal_marks \<or>
                 (c = 10 \<and> (case r of [] \<Rightarrow> False | d # _ \<Rightarrow> d \<in> set terminal_marks)))"

definition ensure_punctuation :: "ustr \<Rightarrow> ustr" where
  "ensure_punctuation text = (if ends_with_mark (strip text) then text else text @ [46])"

text \<open>A path chunk and a merged chunk: the lines and the stored token count.\<close>

record chunk =
  chunk_content :: "ustr list"
  token_length :: nat

record output_chunk =
  source_file :: ustr
  url :: ustr
  out_token_length :: nat
  out_chunk_content :: ustr

datatype error = MissingNodes "ustr list"

text \<open>
  \<open>extract_all_node_texts\<close> appends the node's content to the collector and then visits
  the children in order; the model returns what is appended.
\<close>

fun extract_all_node_texts :: "node \<Rightarrow> ustr list" where
  "extract_all_node_texts (Node l c ch) = c # concat (map extract_all_node_texts ch)"

text \<open>
  \<open>dfs_build\<close>: \<open>path\<close> is the value of \<open>current_path\<close> on entry, the result is what
  the call appends to \<open>all_chunks\<close>. The token counter \<open>ct\<close> stands for
  \<open>count_tokens(\<cdot>, model_name)\<close>, which is the external tokenizer; it is applied to the
  lines concatenated with the empty separator.
\<close>

fun dfs_build :: "(ustr \<Rightarrow> nat) \<Rightarrow> ustr list \<Rightarrow> node \<Rightarrow> chunk list" where
  "dfs_build ct path (Node l c ch) =
     (let current_path = path @ [ensure_punctuation c] in
      if ch = [] then
        [\<lparr>chunk_content = current_path, token_length = ct (concat current_path)\<rparr>]
      else concat (map (dfs_build ct current_path) ch))"

text \<open>
  The scan for the first line of the next chunk that is not in the current one:
  the index of that line, or \<open>-1\<close> when every line is already there.
\<close>

fun find_first_diff :: "ustr list \<Rightarrow> ustr list \<Rightarrow> int \<Rightarrow> int" where
  "find_first_diff lines_cur [] idx = -1"
| "find_first_diff lines_cur (line # rest) idx =
     (if line \<notin> set lines_cur then idx else find_first_diff lines_cur rest (idx + 1))"

definition merge_lines :: "ustr list \<Rightarrow> ustr list \<Rightarrow> ustr list" where
  "merge_lines lines_cur lines_nxt =
     (let found = find_first_diff lines_cur lines_nxt 0;
          merged_lines = (if found \<ge> 0 then lines_cur @ drop (nat found) lines_nxt
                          else lines_cur @ lines_nxt)
      in map ensure_punctuation merged_lines)"

text \<open>
  The inner loop over \<open>j\<close>: \<open>current\<close> absorbs the chunks that follow while the merged
  token count stays within \<open>max_token\<close>. The result is \<open>current\<close> and the chunks from
  index \<open>j\<close> on.
\<close>

fun absorb :: "(ustr \<Rightarrow> nat) \<Rightarrow> int \<Rightarrow> chunk \<Rightarrow> chunk list \<Rightarrow> chunk \<times> chunk list" where
  "absorb ct max_token current [] = (current, [])"
| "absorb ct max_token current (nxt # rest) =
     (let merged_lines = merge_lines (chunk_content current) (chunk_content nxt);
          merged_tokens = ct (concat merged_lines)
      in if int merged_tokens \<le> max_token then
           absorb ct max_token
             \<lparr>chunk_content = merged_lines, token_length = merged_tokens\<rparr> rest
         else (current, nxt # rest))"

text \<open>The outer loop over \<open>i\<close>: the argument is \<open>all_chunks[i:]\<close>.\<close>

function merge_chunks :: "(ustr \<Rightarrow> nat) \<Rightarrow> int \<Rightarrow> chunk list \<Rightarrow> chunk list" where
  "merge_chunks ct max_token [] = []"
| "merge_chunks ct max_token (c # rest) =
     fst (absorb ct max_token c rest) #
     merge_chunks ct max_token (snd (absorb ct max_token c rest))"
  by pat_completeness auto
termination
proof (relation "measure (\<lambda>(ct, mx, cs). length cs)")
  show "wf (measure (\<lambda>(ct, mx, cs). length cs))" by simp
next
  fix ct :: "ustr \<Rightarrow> nat" and max_token :: int and c :: chunk and rest :: "chunk list"
  have "length (snd (absorb ct max_token cur rest)) \<le> length rest" for cur
  proof (induction rest arbitrary: cur)
    case Nil
    show ?case by simp
  next
    case (Cons nxt rest)
    show ?case
      using Cons.IH [of "\<lparr>chunk_content = merge_lines (chunk_content cur) (chunk_content nxt),
          token_length = ct (concat (merge_lines (chunk_content cur) (chunk_content nxt)))\<rparr>"]
      by (simp add: Let_def)
  qed
  then show "((ct, max_token, snd (absorb ct max_token c rest)), ct, max_token, c # rest)
      \<in> measure (\<lambda>(ct, mx, cs). length cs)"
    by (simp add: less_Suc_eq_le)
qed

definition root_node :: "tree_data \<Rightarrow> node" where
  "root_node td = Node (-1) (ten_van_ban td) (tree_content td)"

definition final_chunks :: "(ustr \<Rightarrow> nat) \<Rightarrow> int \<Rightarrow> tree_data \<Rightarrow> chunk list" where
  "final_chunks ct max_token td = merge_chunks ct max_token (dfs_build ct [] (root_node td))"

text \<open>
  \<open>create_chunks_from_tree\<close>. The \<open>ValueError\<close> of the verification is the error value,
  carrying the missing texts.
\<close>

definition create_chunks_from_tree ::
  "(ustr \<Rightarrow> nat) \<Rightarrow> tree_data \<Rightarrow> ustr \<Rightarrow> int \<Rightarrow> error + output_chunk list" where
  "create_chunks_from_tree ct td source_file_path max_token =
     (let all_node_texts = map ensure_punctuation (extract_all_node_texts (root_node td));
          fcs = final_chunks ct max_token td;
          used_texts = concat (map chunk_content fcs);
          missing = filter (\<lambda>t. t \<notin> set used_texts) (remdups all_node_texts)
      in if missing \<noteq> [] then Inl (MissingNodes missing)
         else Inr (map (\<lambda>c. \<lparr>source_file = source_file_path, url = [],
                               out_token_length = token_length c,
                               out_chunk_content = join [32] (chunk_content c)\<rparr>) fcs))"

text \<open>The two steps that \<open>process_folder_to_unified_json\<close> runs for one file.\<close>

definition process_document ::
  "(ustr \<Rightarrow> nat) \<Rightarrow> ustr \<Rightarrow> ustr \<Rightarrow> ustr list \<Rightarrow> int \<Rightarrow> error + output_chunk list" where
  "process_document ct txt_file file_name lines max_token =
     create_chunks_from_tree ct (parse_legal_document_to_dict file_name lines) txt_file max_token"

section \<open>Predicates used in the properties\<close>

text \<open>A list of lines on which \<open>ensure_punctuation\<close> changes nothing.\<close>

definition normalised :: "ustr list \<Rightarrow> bool" where
  "normalised ls \<longleftrightarrow> (\<forall>l \<in> set ls. ensure_punctuation l = l)"

definition chunk_norm :: "chunk \<Rightarrow> bool" where
  "chunk_norm c \<longleftrightarrow> normalised (chunk_content c)"

text \<open>
  The invariant of the builder: the store holds the root, of level \<open>-1\<close>, at index 0 and
  nodes of positive level elsewhere; every child reference points forward to a node of
  greater level; the stack holds references to nodes other than the root, with levels
  that decrease strictly from the top downwards.
\<close>

definition store_ok :: "builder \<Rightarrow> bool" where
  "store_ok b \<longleftrightarrow>
     nodes b \<noteq> [] \<and> p_level (nodes b ! 0) = -1 \<and>
     (\<forall>i < length (nodes b). 0 < i \<longrightarrow> 0 < p_level (nodes b ! i)) \<and>
     (\<forall>i < length (nodes b). \<forall>c \<in> set (p_children (nodes b ! i)).
        i < c \<and> c < length (nodes b) \<and> p_level (nodes b ! i) < p_level (nodes b ! c)) \<and>
     (\<forall>i \<in> set (stack b). 0 < i \<and> i < length (nodes b)) \<and>
     sorted_wrt (\<lambda>i j. p_level (nodes b ! j) < p_level (nodes b ! i)) (stack b)"

text \<open>
  The depth ordering of a tree: every child has a greater level than its parent.
\<close>

fun levels_increase :: "node \<Rightarrow> bool" where
  "levels_increase (Node l c ch) = (\<forall>k \<in> set ch. l < level k \<and> levels_increase k)"

text \<open>
  The stack after the pops for a line of level \<open>lvl\<close>, and the node the new node is
  attached to.
\<close>

definition popped :: "int \<Rightarrow> builder \<Rightarrow> nat list" where
  "popped lvl b = dropWhile (\<lambda>i. p_level (nodes b ! i) \<ge> lvl) (stack b)"

definition parent_of :: "int \<Rightarrow> builder \<Rightarrow> nat" where
  "parent_of lvl b = (case popped lvl b of [] \<Rightarrow> 0 | tp # _ \<Rightarrow> tp)"

section \<open>Properties of the chunker\<close>

lemma strip_snoc_dot: "strip (t @ [46]) = dropWhile isspace t @ [46]"
proof -
  have ns: "\<not> isspace 46" by (simp add: isspace_def)
  have "dropWhile isspace (t @ [46]) = dropWhile isspace t @ [46]"
    using ns by (induction t) auto
  then show ?thesis using ns by (simp add: strip_def)
qed

lemma ensure_punctuation_idem: "ensure_punctuation (ensure_punctuation t) = ensure_punctuation t"
  by (simp add: ensure_punctuation_def strip_snoc_dot ends_with_mark_def terminal_marks_def)

lemma find_first_diff_neg:
  "0 \<le> idx \<Longrightarrow> find_first_diff cur nxt idx < 0 \<longleftrightarrow> set nxt \<subseteq> set cur"
  by (induction nxt arbitrary: idx) auto

lemma find_first_diff_pos:
  "0 \<le> idx \<Longrightarrow> 0 \<le> find_first_diff cur nxt idx \<Longrightarrow>
     idx \<le> find_first_diff cur nxt idx \<and>
     set (take (nat (find_first_diff cur nxt idx - idx)) nxt) \<subseteq> set cur"
proof (induction nxt arbitrary: idx)
  case Nil
  then show ?case by simp
next
  case (Cons l rest)
  show ?case
  proof (cases "l \<in> set cur")
    case False
    then show ?thesis by simp
  next
    case True
    then have eq: "find_first_diff cur (l # rest) idx = find_first_diff cur rest (idx + 1)" by simp
    from Cons.prems have "0 \<le> idx + 1" and "0 \<le> find_first_diff cur rest (idx + 1)"
      using eq by auto
    from Cons.IH [OF this]
    have a: "idx + 1 \<le> find_first_diff cur rest (idx + 1)"
      and b: "set (take (nat (find_first_diff cur rest (idx + 1) - (idx + 1))) rest) \<subseteq> set cur"
      by auto
    from a have "nat (find_first_diff cur rest (idx + 1) - idx) =
        Suc (nat (find_first_diff cur rest (idx + 1) - (idx + 1)))" by simp
    with a b True show ?thesis unfolding eq by simp
  qed
qed

lemma set_merge_lines:
  "set (merge_lines cur nxt) = ensure_punctuation ` (set cur \<union> set nxt)"
proof (cases "0 \<le> find_first_diff cur nxt 0")
  case True
  let ?k = "nat (find_first_diff cur nxt 0)"
  from find_first_diff_pos [OF _ True] have sub: "set (take ?k nxt) \<subseteq> set cur" by simp
  have "set nxt = set (take ?k nxt) \<union> set (drop ?k nxt)"
    by (metis append_take_drop_id set_append)
  with sub have "set cur \<union> set nxt = set cur \<union> set (drop ?k nxt)" by blast
  with True show ?thesis by (simp add: merge_lines_def Let_def image_Un)
next
  case False
  then have "set nxt \<subseteq> set cur" using find_first_diff_neg [of 0 cur nxt] by simp
  then have "set cur \<union> set nxt = set cur" by blast
  with False show ?thesis by (auto simp add: merge_lines_def Let_def)
qed

lemma merge_lines_append:
  "\<exists>ys. merge_lines cur nxt = map ensure_punctuation cur @ ys"
  by (simp add: merge_lines_def Let_def)

lemma normalised_merge_lines: "normalised (merge_lines cur nxt)"
  by (auto simp: normalised_def set_merge_lines ensure_punctuation_idem)

lemma absorb_covers:
  "chunk_norm cur \<Longrightarrow> \<forall>c \<in> set rest. chunk_norm c \<Longrightarrow>
   \<exists>k \<le> length rest. snd (absorb ct mx cur rest) = drop k rest \<and>
      chunk_norm (fst (absorb ct mx cur rest)) \<and>
      set (chunk_content cur) \<union> (\<Union>c \<in> set (take k rest). set (chunk_content c))
        \<subseteq> set (chunk_content (fst (absorb ct mx cur rest)))"
proof (induction rest arbitrary: cur)
  case Nil
  then show ?case by simp
next
  case (Cons nxt rest)
  let ?ml = "merge_lines (chunk_content cur) (chunk_content nxt)"
  let ?m = "\<lparr>chunk_content = ?ml, token_length = ct (concat ?ml)\<rparr>"
  show ?case
  proof (cases "int (ct (concat ?ml)) \<le> mx")
    case False
    then have "absorb ct mx cur (nxt # rest) = (cur, nxt # rest)" by (simp add: Let_def)
    with Cons.prems(1) show ?thesis by (intro exI [of _ 0]) simp
  next
    case True
    then have eq: "absorb ct mx cur (nxt # rest) = absorb ct mx ?m rest" by (simp add: Let_def)
    have nm: "chunk_norm ?m" by (simp add: chunk_norm_def normalised_merge_lines)
    from Cons.prems have ncur: "normalised (chunk_content cur)"
      and nnxt: "normalised (chunk_content nxt)" by (simp_all add: chunk_norm_def)
    have sm: "set ?ml = set (chunk_content cur) \<union> set (chunk_content nxt)"
    proof -
      have "ensure_punctuation ` (set (chunk_content cur) \<union> set (chunk_content nxt)) =
          id ` (set (chunk_content cur) \<union> set (chunk_content nxt))"
        using ncur nnxt by (intro image_cong) (auto simp: normalised_def)
      then show ?thesis by (simp add: set_merge_lines)
    qed
    from Cons.prems have "\<forall>c \<in> set rest. chunk_norm c" by simp
    from Cons.IH [OF nm this] obtain k where k: "k \<le> length rest"
      "snd (absorb ct mx ?m rest) = drop k rest"
      "chunk_norm (fst (absorb ct mx ?m rest))"
      "set (chunk_content ?m) \<union> (\<Union>c \<in> set (take k rest). set (chunk_content c))
        \<subseteq> set (chunk_content (fst (absorb ct mx ?m rest)))" by blast
    show ?thesis
    proof (intro exI [of _ "Suc k"] conjI)
      show "Suc k \<le> length (nxt # rest)" using k(1) by simp
      show "snd (absorb ct mx cur (nxt # rest)) = drop (Suc k) (nxt # rest)"
        using k(2) eq by simp
      show "chunk_norm (fst (absorb ct mx cur (nxt # rest)))" using k(3) eq by simp
      show "set (chunk_content cur) \<union> (\<Union>c \<in> set (take (Suc k) (nxt # rest)). set (chunk_content c))
        \<subseteq> set (chunk_content (fst (absorb ct mx cur (nxt # rest))))"
        using k(4) sm unfolding eq by auto
    qed
  qed
qed

lemma merge_chunks_covers:
  "\<forall>c \<in> set cs. chunk_norm c \<Longrightarrow> c \<in> set cs \<Longrightarrow>
   \<exists>f \<in> set (merge_chunks ct mx cs). set (chunk_content c) \<subseteq> set (chunk_content f)"
proof (induction ct mx cs arbitrary: c rule: merge_chunks.induct)
  case (1 ct mx)
  then show ?case by simp
next
  case (2 ct mx c0 rest)
  from "2.prems" have n0: "chunk_norm c0" and nr: "\<forall>c \<in> set rest. chunk_norm c" by simp_all
  from absorb_covers [OF n0 nr, of ct mx] obtain k where k: "k \<le> length rest"
    "snd (absorb ct mx c0 rest) = drop k rest"
    "set (chunk_content c0) \<union> (\<Union>c \<in> set (take k rest). set (chunk_content c))
        \<subseteq> set (chunk_content (fst (absorb ct mx c0 rest)))" by blast
  have "c = c0 \<or> c \<in> set (take k rest) \<or> c \<in> set (drop k rest)"
    using "2.prems"(2) by (metis append_take_drop_id set_ConsD set_append Un_iff)
  then consider "c = c0 \<or> c \<in> set (take k rest)" | "c \<in> set (drop k rest)" by blast
  then show ?case
  proof cases
    case 1
    then have "set (chunk_content c) \<subseteq> set (chunk_content (fst (absorb ct mx c0 rest)))"
      using k(3) by auto
    then show ?thesis by simp
  next
    case 2
    have "\<forall>c \<in> set (snd (absorb ct mx c0 rest)). chunk_norm c"
      using nr k(2) by (auto dest: in_set_dropD)
    from "2.IH" [OF this] 2 k(2) show ?thesis by simp
  qed
qed

lemma dfs_build_norm:
  "normalised path \<Longrightarrow> \<forall>c \<in> set (dfs_build ct path n). chunk_norm c"
proof (induction ct path n rule: dfs_build.induct)
  case (1 ct path l c ch)
  let ?p = "path @ [ensure_punctuation c]"
  have np: "normalised ?p" using "1.prems" by (simp add: normalised_def ensure_punctuation_idem)
  show ?case
  proof (cases "ch = []")
    case True
    then show ?thesis using np by (simp add: chunk_norm_def)
  next
    case False
    then show ?thesis using "1.IH" [OF refl False _ np] by (auto simp: Let_def)
  qed
qed

lemma dfs_build_nonempty: "dfs_build ct path n \<noteq> []"
proof (induction ct path n rule: dfs_build.induct)
  case (1 ct path l c ch)
  show ?case
  proof (cases ch)
    case Nil
    then show ?thesis by simp
  next
    case (Cons k ks)
    with "1.IH" [OF refl, of k] show ?thesis by (simp add: Let_def)
  qed
qed

lemma dfs_build_path:
  "c \<in> set (dfs_build ct path n) \<Longrightarrow> \<exists>ys. chunk_content c = path @ ensure_punctuation (content n) # ys"
proof (induction ct path n arbitrary: c rule: dfs_build.induct)
  case (1 ct path l t ch)
  show ?case
  proof (cases "ch = []")
    case True
    with "1.prems" show ?thesis by simp
  next
    case False
    with "1.prems" obtain k where k: "k \<in> set ch"
      "c \<in> set (dfs_build ct (path @ [ensure_punctuation t]) k)" by (auto simp: Let_def)
    from "1.IH" [OF refl False k] show ?thesis by auto
  qed
qed

lemma dfs_build_covers:
  "t \<in> set (extract_all_node_texts n) \<Longrightarrow>
   \<exists>c \<in> set (dfs_build ct path n). ensure_punctuation t \<in> set (chunk_content c)"
proof (induction ct path n arbitrary: t rule: dfs_build.induct)
  case (1 ct path l t0 ch)
  let ?p = "path @ [ensure_punctuation t0]"
  show ?case
  proof (cases "ch = []")
    case True
    with "1.prems" show ?thesis by simp
  next
    case False
    from "1.prems" consider "t = t0" | k where "k \<in> set ch" "t \<in> set (extract_all_node_texts k)"
      by auto
    then show ?thesis
    proof cases
      case 1
      from False obtain k where k: "k \<in> set ch" by (cases ch) auto
      from dfs_build_nonempty [of ct ?p k] obtain c where c: "c \<in> set (dfs_build ct ?p k)"
        by (cases "dfs_build ct ?p k") auto
      from dfs_build_path [OF c] have "ensure_punctuation t0 \<in> set (chunk_content c)" by auto
      with c k False 1 show ?thesis by (auto simp: Let_def)
    next
      case 2
      from "1.IH" [OF refl False 2(1) 2(2)] 2(1) False show ?thesis by (auto simp: Let_def)
    qed
  qed
qed

lemma final_chunks_cover:
  assumes "t \<in> set (extract_all_node_texts (root_node td))"
  shows "\<exists>f \<in> set (final_chunks ct mx td). ensure_punctuation t \<in> set (chunk_content f)"
proof -
  let ?cs = "dfs_build ct [] (root_node td)"
  from dfs_build_covers [OF assms, of ct "[]"] obtain c where
    c: "c \<in> set ?cs" "ensure_punctuation t \<in> set (chunk_content c)" by blast
  have "\<forall>c \<in> set ?cs. chunk_norm c" by (rule dfs_build_norm) (simp add: normalised_def)
  from merge_chunks_covers [OF this c(1), of ct mx] c(2) show ?thesis
    by (auto simp: final_chunks_def)
qed

lemma no_missing:
  "filter (\<lambda>t. t \<notin> set (concat (map chunk_content (final_chunks ct mx td))))
     (remdups (map ensure_punctuation (extract_all_node_texts (root_node td)))) = []"
proof -
  have "\<forall>t \<in> set (extract_all_node_texts (root_node td)).
      ensure_punctuation t \<in> set (concat (map chunk_content (final_chunks ct mx td)))"
    using final_chunks_cover [of _ td ct mx] by auto
  then show ?thesis by (auto simp: filter_empty_conv)
qed

text \<open>
  Claim C1. For every document tree, token counter and budget, \<open>create_chunks_from_tree\<close>
  never returns the missing-nodes error: it returns one output chunk for each final
  chunk, in order, whose content is the lines of that final chunk joined by spaces; and
  the normalised content of every node of the tree (the root title, every inner heading
  and every leaf) is a line of at least one of these final chunks.
\<close>

theorem coverage_no_violation:
  "create_chunks_from_tree ct td src mx =
     Inr (map (\<lambda>c. \<lparr>source_file = src, url = [],
                     out_token_length = token_length c,
                     out_chunk_content = join [32] (chunk_content c)\<rparr>)
            (final_chunks ct mx td)) \<and>
   (\<forall>t \<in> set (extract_all_node_texts (root_node td)).
      \<exists>f \<in> set (final_chunks ct mx td). ensure_punctuation t \<in> set (chunk_content f))"
  using final_chunks_cover [of _ td ct mx] no_missing [of ct mx td]
  by (simp add: create_chunks_from_tree_def Let_def)

lemmas ep_eval = ensure_punctuation_def strip_def isspace_def ends_with_mark_def terminal_marks_def

theorem coverage_no_violation_witness:
  "[65] \<in> set (extract_all_node_texts (root_node
      \<lparr>ten_van_ban = [84], file_goc = [], co_phu_luc = False, noi_dung_khong_luu = [],
       tree_content = [Node 5 [65] [], Node 5 [66] []]\<rparr>)) \<and>
   final_chunks length 800
      \<lparr>ten_van_ban = [84], file_goc = [], co_phu_luc = False, noi_dung_khong_luu = [],
       tree_content = [Node 5 [65] [], Node 5 [66] []]\<rparr> =
     [\<lparr>chunk_content = [[84, 46], [65, 46], [66, 46]], token_length = 6\<rparr>] \<and>
   ensure_punctuation [65] \<in> set [[84, 46], [65, 46], [66, 46]] \<and>
   create_chunks_from_tree length
      \<lparr>ten_van_ban = [84], file_goc = [], co_phu_luc = False, noi_dung_khong_luu = [],
       tree_content = [Node 5 [65] [], Node 5 [66] []]\<rparr> [] 800 =
     Inr [\<lparr>source_file = [], url = [], out_token_length = 6,
           out_chunk_content = [84, 46, 32, 65, 46, 32, 66, 46]\<rparr>]"
proof -
  let ?td = "\<lparr>ten_van_ban = [84], file_goc = [], co_phu_luc = False, noi_dung_khong_luu = [],
       tree_content = [Node 5 [65] [], Node 5 [66] []]\<rparr>"
  have mem: "[65] \<in> set (extract_all_node_texts (root_node ?td))"
    by (simp add: root_node_def)
  have fc: "final_chunks length 800 ?td =
     [\<lparr>chunk_content = [[84, 46], [65, 46], [66, 46]], token_length = 6\<rparr>]"
    by (simp add: final_chunks_def root_node_def merge_lines_def ep_eval)
  from coverage_no_violation [of length ?td "[]" 800] mem
  have res: "create_chunks_from_tree length ?td [] 800 =
     Inr (map (\<lambda>c. \<lparr>source_file = [], url = [], out_token_length = token_length c,
                     out_chunk_content = join [32] (chunk_content c)\<rparr>)
            (final_chunks length 800 ?td))"
    and cov: "\<exists>f \<in> set (final_chunks length 800 ?td).
      ensure_punctuation [65] \<in> set (chunk_content f)"
    by blast+
  from cov have "ensure_punctuation [65] \<in> set [[84, 46], [65, 46], [66, 46]]"
    unfolding fc by simp
  moreover from res have "create_chunks_from_tree length ?td [] 800 =
     Inr [\<lparr>source_file = [], url = [], out_token_length = 6,
           out_chunk_content = [84, 46, 32, 65, 46, 32, 66, 46]\<rparr>]"
    unfolding fc by simp
  ultimately show ?thesis using mem fc by blast
qed


lemma absorb_budget:
  "fst (absorb ct mx cur rest) = cur \<or> int (token_length (fst (absorb ct mx cur rest))) \<le> mx"
proof (induction rest arbitrary: cur)
  case Nil
  show ?case by simp
next
  case (Cons nxt rest)
  let ?ml = "merge_lines (chunk_content cur) (chunk_content nxt)"
  let ?m = "\<lparr>chunk_content = ?ml, token_length = ct (concat ?ml)\<rparr>"
  show ?case
  proof (cases "int (ct (concat ?ml)) \<le> mx")
    case False
    then show ?thesis by (simp add: Let_def)
  next
    case True
    then have eq: "absorb ct mx cur (nxt # rest) = absorb ct mx ?m rest" by (simp add: Let_def)
    from Cons.IH [of ?m] True show ?thesis unfolding eq by auto
  qed
qed

lemma absorb_suffix: "\<exists>k. snd (absorb ct mx cur rest) = drop k rest"
proof (induction rest arbitrary: cur)
  case Nil
  show ?case by simp
next
  case (Cons nxt rest)
  let ?ml = "merge_lines (chunk_content cur) (chunk_content nxt)"
  let ?m = "\<lparr>chunk_content = ?ml, token_length = ct (concat ?ml)\<rparr>"
  show ?case
  proof (cases "int (ct (concat ?ml)) \<le> mx")
    case False
    then have "snd (absorb ct mx cur (nxt # rest)) = drop 0 (nxt # rest)" by (simp add: Let_def)
    then show ?thesis by blast
  next
    case True
    then have eq: "absorb ct mx cur (nxt # rest) = absorb ct mx ?m rest" by (simp add: Let_def)
    from Cons.IH [of ?m] obtain k where "snd (absorb ct mx ?m rest) = drop k rest" by blast
    then have "snd (absorb ct mx cur (nxt # rest)) = drop (Suc k) (nxt # rest)"
      unfolding eq by simp
    then show ?thesis by blast
  qed
qed

text \<open>
  Claim C2. For every token counter, every budget and every sequence of path chunks,
  each chunk the merge loop emits has a stored token length within the budget, unless it
  is one of the path chunks itself, emitted unchanged, whose own stored token length is
  over the budget.
\<close>

theorem merge_budget:
  "\<forall>f \<in> set (merge_chunks ct max_token all_chunks).
     int (token_length f) \<le> max_token \<or>
     (f \<in> set all_chunks \<and> max_token < int (token_length f))"
proof (induction ct max_token all_chunks rule: merge_chunks.induct)
  case (1 ct mx)
  show ?case by simp
next
  case (2 ct mx c rest)
  from absorb_suffix [of ct mx c rest] obtain k where
    k: "snd (absorb ct mx c rest) = drop k rest" by blast
  have hd: "int (token_length (fst (absorb ct mx c rest))) \<le> mx \<or>
      (fst (absorb ct mx c rest) \<in> set (c # rest) \<and>
       mx < int (token_length (fst (absorb ct mx c rest))))"
    using absorb_budget [of ct mx c rest] by auto
  have tl: "\<forall>f \<in> set (merge_chunks ct mx (snd (absorb ct mx c rest))).
      int (token_length f) \<le> mx \<or> (f \<in> set (c # rest) \<and> mx < int (token_length f))"
    using "2.IH" k by (auto dest: in_set_dropD)
  from hd tl show ?case by simp
qed

theorem merge_budget_witness:
  "\<lparr>chunk_content = [[84,46],[66,66,66,66,46]], token_length = 7\<rparr> \<in>
     set (merge_chunks length 5
      [\<lparr>chunk_content = [[84,46],[65,46]], token_length = 4\<rparr>,
       \<lparr>chunk_content = [[84,46],[66,66,66,66,46]], token_length = 7\<rparr>,
       \<lparr>chunk_content = [[84,46],[67,46]], token_length = 4\<rparr>]) \<and>
   \<lparr>chunk_content = [[84,46],[66,66,66,66,46]], token_length = 7\<rparr> \<in>
     set [\<lparr>chunk_content = [[84,46],[65,46]], token_length = 4\<rparr>,
       \<lparr>chunk_content = [[84,46],[66,66,66,66,46]], token_length = 7\<rparr>,
       \<lparr>chunk_content = [[84,46],[67,46]], token_length = 4\<rparr>] \<and>
   (5::int) < int (token_length
     \<lparr>chunk_content = [[84,46],[66,66,66,66,46]], token_length = 7\<rparr>)"
proof -
  let ?c = "\<lparr>chunk_content = [[84,46],[66,66,66,66,46]], token_length = 7\<rparr>"
  let ?cs = "[\<lparr>chunk_content = [[84,46],[65,46]], token_length = 4\<rparr>, ?c,
       \<lparr>chunk_content = [[84,46],[67,46]], token_length = 4\<rparr>]"
  have ev: "merge_chunks length 5 ?cs = ?cs"
    by (simp add: merge_lines_def ep_eval)
  then have mem: "?c \<in> set (merge_chunks length 5 ?cs)" by simp
  from merge_budget [of length 5 ?cs] mem
  have "int (token_length ?c) \<le> 5 \<or> (?c \<in> set ?cs \<and> 5 < int (token_length ?c))"
    by blast
  with mem show ?thesis by simp
qed

lemma absorb_head:
  "chunk_content cur = t # xs \<Longrightarrow> ensure_punctuation t = t \<Longrightarrow>
   \<exists>ys. chunk_content (fst (absorb ct mx cur rest)) = t # ys"
proof (induction rest arbitrary: cur xs)
  case Nil
  then show ?case by simp
next
  case (Cons nxt rest)
  let ?ml = "merge_lines (chunk_content cur) (chunk_content nxt)"
  let ?m = "\<lparr>chunk_content = ?ml, token_length = ct (concat ?ml)\<rparr>"
  show ?case
  proof (cases "int (ct (concat ?ml)) \<le> mx")
    case False
    then show ?thesis using Cons.prems by (simp add: Let_def)
  next
    case True
    then have eq: "absorb ct mx cur (nxt # rest) = absorb ct mx ?m rest" by (simp add: Let_def)
    from merge_lines_append [of "chunk_content cur" "chunk_content nxt"] Cons.prems
    obtain zs where "chunk_content ?m = t # zs" by auto
    from Cons.IH [OF this Cons.prems(2)] show ?thesis unfolding eq .
  qed
qed

lemma merge_chunks_head:
  "\<forall>c \<in> set cs. \<exists>ys. chunk_content c = t # ys \<Longrightarrow> ensure_punctuation t = t \<Longrightarrow>
   \<forall>f \<in> set (merge_chunks ct mx cs). \<exists>ys. chunk_content f = t # ys"
proof (induction ct mx cs rule: merge_chunks.induct)
  case (1 ct mx)
  show ?case by simp
next
  case (2 ct mx c rest)
  from "2.prems"(1) obtain xs where xs: "chunk_content c = t # xs" by auto
  from absorb_suffix [of ct mx c rest] obtain k where
    k: "snd (absorb ct mx c rest) = drop k rest" by blast
  have "\<forall>c \<in> set (snd (absorb ct mx c rest)). \<exists>ys. chunk_content c = t # ys"
    using "2.prems"(1) k by (auto dest: in_set_dropD)
  from "2.IH" [OF this "2.prems"(2)] absorb_head [OF xs "2.prems"(2), of ct mx rest]
  show ?case by simp
qed

text \<open>
  Claim C10. The line sequence of every final chunk begins with the normalised document
  title: every path chunk starts with it, and merging only appends after the lines the
  accumulator already has.
\<close>

theorem title_first:
  "\<forall>f \<in> set (final_chunks ct max_token td).
     \<exists>ys. chunk_content f = ensure_punctuation (ten_van_ban td) # ys"
proof -
  have "\<forall>c \<in> set (dfs_build ct [] (root_node td)).
      \<exists>ys. chunk_content c = ensure_punctuation (ten_van_ban td) # ys"
    using dfs_build_path [of _ ct "[]" "root_node td"] by (simp add: root_node_def)
  from merge_chunks_head [OF this ensure_punctuation_idem] show ?thesis
    by (simp add: final_chunks_def)
qed

theorem title_first_witness:
  "\<lparr>chunk_content = [[84, 46], [66, 46]], token_length = 4\<rparr> \<in>
     set (final_chunks length 4
      \<lparr>ten_van_ban = [84], file_goc = [], co_phu_luc = False, noi_dung_khong_luu = [],
       tree_content = [Node 5 [65] [], Node 5 [66] []]\<rparr>) \<and>
   (\<exists>ys. chunk_content \<lparr>chunk_content = [[84, 46], [66, 46]], token_length = 4\<rparr> =
      [84, 46] # ys)"
proof -
  let ?td = "\<lparr>ten_van_ban = [84], file_goc = [], co_phu_luc = False, noi_dung_khong_luu = [],
       tree_content = [Node 5 [65] [], Node 5 [66] []]\<rparr>"
  let ?c = "\<lparr>chunk_content = [[84, 46], [66, 46]], token_length = 4\<rparr>"
  have ev: "final_chunks length 4 ?td =
     [\<lparr>chunk_content = [[84, 46], [65, 46]], token_length = 4\<rparr>, ?c]"
    by (simp add: final_chunks_def root_node_def merge_lines_def ep_eval)
  then have mem: "?c \<in> set (final_chunks length 4 ?td)" by simp
  have ep: "ensure_punctuation (ten_van_ban ?td) = [84, 46]" by (simp add: ep_eval)
  from title_first [of length 4 ?td] mem
  have "\<exists>ys. chunk_content ?c = ensure_punctuation (ten_van_ban ?td) # ys" by blast
  with mem ep show ?thesis by simp
qed

lemma find_first_diff_repeat:
  "set nxt \<subseteq> set cur \<Longrightarrow> find_first_diff cur nxt idx = -1"
  by (induction nxt arbitrary: idx) auto

text \<open>
  Claim C3, as stated, fails. With the accumulator \<open>["T.", "A."]\<close> and the candidate
  \<open>["T.", "A."]\<close> the scan finds no novel line (\<open>found = -1\<close>), and the merged
  sequence is the accumulator followed by the whole candidate, four lines and not two;
  with a budget of 5 and a counter that counts characters the candidate is not absorbed.
\<close>

theorem repeat_candidate_counterexample:
  "find_first_diff [[84, 46], [65, 46]] [[84, 46], [65, 46]] 0 = -1 \<and>
   merge_lines [[84, 46], [65, 46]] [[84, 46], [65, 46]] =
     [[84, 46], [65, 46], [84, 46], [65, 46]] \<and>
   absorb length 5 \<lparr>chunk_content = [[84, 46], [65, 46]], token_length = 4\<rparr>
     [\<lparr>chunk_content = [[84, 46], [65, 46]], token_length = 4\<rparr>] =
     (\<lparr>chunk_content = [[84, 46], [65, 46]], token_length = 4\<rparr>,
      [\<lparr>chunk_content = [[84, 46], [65, 46]], token_length = 4\<rparr>])"
  by (simp add: merge_lines_def ep_eval)

text \<open>
  Claim C3, amended. When every line of the candidate already occurs in the accumulator,
  the trial sequence is the accumulator's lines followed by all of the candidate's
  lines, re-normalised; the candidate is absorbed when the token count of that trial
  is within the budget, and merging stops before it otherwise.
\<close>

theorem repeat_candidate_appended:
  assumes "set (chunk_content nxt) \<subseteq> set (chunk_content current)"
  shows "find_first_diff (chunk_content current) (chunk_content nxt) 0 = -1 \<and>
     merge_lines (chunk_content current) (chunk_content nxt) =
       map ensure_punctuation (chunk_content current @ chunk_content nxt) \<and>
     absorb ct max_token current (nxt # rest) =
       (if int (ct (concat (map ensure_punctuation (chunk_content current @ chunk_content nxt))))
           \<le> max_token
        then absorb ct max_token
          \<lparr>chunk_content = map ensure_punctuation (chunk_content current @ chunk_content nxt),
           token_length =
             ct (concat (map ensure_punctuation (chunk_content current @ chunk_content nxt)))\<rparr>
          rest
        else (current, nxt # rest))"
proof -
  have f: "find_first_diff (chunk_content current) (chunk_content nxt) 0 = -1"
    using assms by (rule find_first_diff_repeat)
  then have m: "merge_lines (chunk_content current) (chunk_content nxt) =
       map ensure_punctuation (chunk_content current @ chunk_content nxt)"
    by (simp add: merge_lines_def)
  show ?thesis using f m by (simp add: Let_def)
qed

theorem repeat_candidate_appended_witness:
  "set (chunk_content \<lparr>chunk_content = [[84, 46], [65, 46]], token_length = 4\<rparr>) \<subseteq>
     set (chunk_content \<lparr>chunk_content = [[84, 46], [65, 46]], token_length = 4\<rparr>) \<and>
   absorb length 800 \<lparr>chunk_content = [[84, 46], [65, 46]], token_length = 4\<rparr>
     [\<lparr>chunk_content = [[84, 46], [65, 46]], token_length = 4\<rparr>] =
     (\<lparr>chunk_content = [[84, 46], [65, 46], [84, 46], [65, 46]], token_length = 8\<rparr>, [])"
proof -
  let ?c = "\<lparr>chunk_content = [[84, 46], [65, 46]], token_length = 4\<rparr>"
  have h: "set (chunk_content ?c) \<subseteq> set (chunk_content ?c)" by simp
  from repeat_candidate_appended [OF h, of length 800 "[]"] show ?thesis
    by (simp add: ep_eval)
qed

lemma absorb_token_length:
  "token_length cur = ct (concat (chunk_content cur)) \<Longrightarrow>
   token_length (fst (absorb ct mx cur rest)) = ct (concat (chunk_content (fst (absorb ct mx cur rest))))"
proof (induction rest arbitrary: cur)
  case Nil
  then show ?case by simp
next
  case (Cons nxt rest)
  let ?ml = "merge_lines (chunk_content cur) (chunk_content nxt)"
  let ?m = "\<lparr>chunk_content = ?ml, token_length = ct (concat ?ml)\<rparr>"
  show ?case
  proof (cases "int (ct (concat ?ml)) \<le> mx")
    case False
    then show ?thesis using Cons.prems by (simp add: Let_def)
  next
    case True
    then have eq: "absorb ct mx cur (nxt # rest) = absorb ct mx ?m rest" by (simp add: Let_def)
    have "token_length ?m = ct (concat (chunk_content ?m))" by simp
    from Cons.IH [OF this] show ?thesis unfolding eq .
  qed
qed

lemma merge_chunks_token_length:
  "\<forall>c \<in> set cs. token_length c = ct (concat (chunk_content c)) \<Longrightarrow>
   \<forall>f \<in> set (merge_chunks ct mx cs). token_length f = ct (concat (chunk_content f))"
proof (induction ct mx cs rule: merge_chunks.induct)
  case (1 ct mx)
  show ?case by simp
next
  case (2 ct mx c rest)
  from absorb_suffix [of ct mx c rest] obtain k where
    k: "snd (absorb ct mx c rest) = drop k rest" by blast
  have "\<forall>c \<in> set (snd (absorb ct mx c rest)). token_length c = ct (concat (chunk_content c))"
    using "2.prems" k by (auto dest: in_set_dropD)
  from "2.IH" [OF this] absorb_token_length [of c ct mx rest] "2.prems"
  show ?case by simp
qed

lemma dfs_build_token_length:
  "\<forall>c \<in> set (dfs_build ct path n). token_length c = ct (concat (chunk_content c))"
proof (induction ct path n rule: dfs_build.induct)
  case (1 ct path l c ch)
  show ?case
  proof (cases "ch = []")
    case True
    then show ?thesis by simp
  next
    case False
    then show ?thesis using "1.IH" [OF refl False] by (auto simp: Let_def)
  qed
qed

text \<open>
  Claim C4, amended. \<open>create_chunks_from_tree\<close> returns, for each final chunk, a record
  whose token length is the counter's value on the chunk's lines concatenated with no
  separator, and whose content is the same lines joined by single spaces.
\<close>

theorem stored_token_count:
  "create_chunks_from_tree ct td src max_token =
     Inr (map (\<lambda>c. \<lparr>source_file = src, url = [],
                     out_token_length = ct (concat (chunk_content c)),
                     out_chunk_content = join [32] (chunk_content c)\<rparr>)
            (final_chunks ct max_token td))"
proof -
  have "\<forall>f \<in> set (final_chunks ct max_token td). token_length f = ct (concat (chunk_content f))"
    unfolding final_chunks_def
    by (rule merge_chunks_token_length) (rule dfs_build_token_length)
  then show ?thesis
    using no_missing [of ct max_token td]
    by (simp add: create_chunks_from_tree_def Let_def)
qed

text \<open>
  Claim C4, as stated, fails. With a counter that counts characters, the tree with title
  \<open>"T"\<close> and the single leaf \<open>"A"\<close> gives one chunk with content \<open>"T. A."\<close>, of five
  characters, and stored token length 4, the count of \<open>"T.A."\<close>.
\<close>

theorem stored_token_count_counterexample:
  "create_chunks_from_tree length
      \<lparr>ten_van_ban = [84], file_goc = [], co_phu_luc = False, noi_dung_khong_luu = [],
       tree_content = [Node 5 [65] []]\<rparr> [] 800 =
     Inr [\<lparr>source_file = [], url = [], out_token_length = 4,
           out_chunk_content = [84, 46, 32, 65, 46]\<rparr>] \<and>
   length [84, 46, 32, 65, 46 :: nat] \<noteq> 4"
  by (simp add: create_chunks_from_tree_def final_chunks_def root_node_def merge_lines_def ep_eval)

section \<open>Properties of the pipeline\<close>

lemmas parse_eval = parse_legal_document_to_dict_def build_def init_builder_def process_line_def
  add_node_def add_text_def lower_def strip_def doc_keywords_def unknown_title_def tree_of.simps

text \<open>
  Claim C5, amended. On an empty sequence of lines no error is raised and exactly one chunk
  is emitted: no title is found, so the root carries the placeholder title, the root
  has no children and is therefore a leaf, and its path chunk is the placeholder title
  with a full stop.
\<close>

theorem empty_document:
  "process_document ct txt_file file_name [] max_token =
     Inr [\<lparr>source_file = txt_file, url = [],
           out_token_length = ct (unknown_title @ [46]),
           out_chunk_content = unknown_title @ [46]\<rparr>]"
  by (simp add: process_document_def create_chunks_from_tree_def final_chunks_def root_node_def
      parse_eval ep_eval)

text \<open>
  Claim C5, as stated, fails: on the empty sequence of lines the result is not the
  empty list of chunks but one chunk whose content is the placeholder title.
\<close>

theorem empty_document_counterexample:
  "process_document length [] [] [] 800 =
     Inr [\<lparr>source_file = [], url = [], out_token_length = 15,
           out_chunk_content =
             [75, 104, 244, 110, 103, 32, 120, 225, 99, 32, 273, 7883, 110, 104, 46]\<rparr>] \<and>
   process_document length [] [] [] 800 \<noteq> Inr []"
  by (simp add: process_document_def create_chunks_from_tree_def final_chunks_def root_node_def
      parse_eval ep_eval)

subsection \<open>Evaluating the classifier\<close>

lemma many_numeral:
  "many ic a (numeral k) (p, []) = []"
  "many ic a (numeral k) (p, c # r) =
     (if atom_match ic a c then (Some c, r) # many ic a (pred_numeral k) (Some c, r) else [])"
  by (simp_all add: numeral_eq_Suc)

lemmas rx_eval = many_numeral re_match_def word_boundary_def ci_eq_def to_lower_def
  extra_cases_def is_word_def word_ranges_def isspace_def numbering_def digit_def roman_letter_def delimiter_def
  w_phan_def w_thu_def w_chuong_def w_muc_def w_tieu_def w_dieu_def w_khoan_def
  w_tieu_khoan_def w_phu_luc_def ordinal_words_def
  rx_phan_def rx_phan_thu_def rx_chuong_def rx_muc_def rx_tieu_muc_def rx_dieu_def
  rx_khoan_def rx_tieu_khoan_def rx_upper_letter_def rx_upper_roman_def rx_number_def
  rx_lower_letter_def rx_lower_roman_def REGEX_LEVEL_MAP_def match_level_def appendix_regex_def

text \<open>
  Lines that reach the word boundary test: \<open>"Muc I"\<close> and \<open>"Phan thu hai"\<close> (with their
  diacritics) are headings; followed directly by a Greek alpha (U+03B1) or a fullwidth A
  (U+FF21), which are word characters, they are not, since no boundary follows the
  numeral; \<open>"Phan 12 abc"\<close> is a heading.
\<close>

lemma word_boundary_examples:
  "match_level [77, 7909, 99, 32, 73] = Some 3"
  "match_level [77, 7909, 99, 32, 73, 945] = None"
  "match_level [80, 104, 7847, 110, 32, 116, 104, 7913, 32, 104, 97, 105] = Some 1"
  "match_level [80, 104, 7847, 110, 32, 116, 104, 7913, 32, 104, 97, 105, 65313] = None"
  "match_level [80, 104, 7847, 110, 32, 49, 50, 32, 97, 98, 99] = Some 1"
  by (simp_all add: rx_eval)

text \<open>
  Claim C8. The line \<open>"I."\<close>, and every line that begins with \<open>"I."\<close>, is classified
  at level 11 (roman numeral) and so not at level 10. The uppercase-letter pattern
  rejects every line that begins with \<open>I\<close>, \<open>II\<close> or \<open>III\<close> followed by \<open>.\<close> or \<open>)\<close>,
  and the lowercase-letter pattern rejects every line that begins with \<open>ii\<close> or
  \<open>iii\<close> followed by \<open>.\<close> or \<open>)\<close>. (73 is \<open>I\<close>, 105 is \<open>i\<close>, 46 is the full stop and
  41 the closing parenthesis.)
\<close>

theorem roman_numeral_ambiguity:
  "match_level [73, 46] = Some 11 \<and>
   match_level (73 # 46 # rest) = Some 11 \<and>
   match_level (73 # 46 # rest) \<noteq> Some 10 \<and>
   \<not> re_match False rx_upper_letter (73 # 46 # rest) \<and>
   \<not> re_match False rx_upper_letter (73 # 41 # rest) \<and>
   \<not> re_match False rx_upper_letter (73 # 73 # 46 # rest) \<and>
   \<not> re_match False rx_upper_letter (73 # 73 # 41 # rest) \<and>
   \<not> re_match False rx_upper_letter (73 # 73 # 73 # 46 # rest) \<and>
   \<not> re_match False rx_upper_letter (73 # 73 # 73 # 41 # rest) \<and>
   \<not> re_match False rx_lower_letter (105 # 105 # 46 # rest) \<and>
   \<not> re_match False rx_lower_letter (105 # 105 # 41 # rest) \<and>
   \<not> re_match False rx_lower_letter (105 # 105 # 105 # 46 # rest) \<and>
   \<not> re_match False rx_lower_letter (105 # 105 # 105 # 41 # rest)"
  by (simp add: rx_eval)

subsection \<open>The example of five lines\<close>

text \<open>
  The lines \<open>"Lu\<dots>t X"\<close>, \<open>"\<dots>i\<dots>u 1"\<close>, \<open>"A"\<close>, \<open>"\<dots>i\<dots>u 1"\<close>, \<open>"B"\<close> of the
  specification's first example (Luat X, Dieu 1, A, Dieu 1, B with their Vietnamese
  diacritics), as code points. The first line holds the keyword of a law, so the title
  is the first line joined to the second; no pattern matches the first line and no
  node is open yet, so it goes to the unsaved lines; \<open>A\<close> and \<open>B\<close> match no pattern
  and are appended to the article that is open.
\<close>

lemma example_tree:
  "parse_legal_document_to_dict file_name
     [[76, 117, 7853, 116, 32, 88], [272, 105, 7873, 117, 32, 49], [65],
       [272, 105, 7873, 117, 32, 49], [66]] =
   \<lparr>ten_van_ban = [76, 117, 7853, 116, 32, 88, 32, 272, 105, 7873, 117, 32, 49],
    file_goc = file_name, co_phu_luc = False,
    noi_dung_khong_luu = [[76, 117, 7853, 116, 32, 88]],
    tree_content =
      [Node 5 [272, 105, 7873, 117, 32, 49, 32, 65] [],
       Node 5 [272, 105, 7873, 117, 32, 49, 32, 66] []]\<rparr>"
  by (simp add: parse_eval rx_eval)

text \<open>
  Claim C6, amended. For the five lines the path chunks are
  \<open>["Luat X Dieu 1.", "Dieu 1 A."]\<close> and \<open>["Luat X Dieu 1.", "Dieu 1 B."]\<close>, and when the
  token count of the three distinct lines concatenated is within the budget, the
  single chunk returned has the content \<open>"Luat X Dieu 1. Dieu 1 A. Dieu 1 B."\<close>.
\<close>

theorem example_lines:
  "map chunk_content (dfs_build ct [] (root_node (parse_legal_document_to_dict file_name
      [[76, 117, 7853, 116, 32, 88], [272, 105, 7873, 117, 32, 49], [65],
       [272, 105, 7873, 117, 32, 49], [66]]))) =
     [[[76, 117, 7853, 116, 32, 88, 32, 272, 105, 7873, 117, 32, 49, 46],
       [272, 105, 7873, 117, 32, 49, 32, 65, 46]],
      [[76, 117, 7853, 116, 32, 88, 32, 272, 105, 7873, 117, 32, 49, 46],
       [272, 105, 7873, 117, 32, 49, 32, 66, 46]]] \<and>
   (int (ct [76, 117, 7853, 116, 32, 88, 32, 272, 105, 7873, 117, 32, 49, 46,
             272, 105, 7873, 117, 32, 49, 32, 65, 46,
             272, 105, 7873, 117, 32, 49, 32, 66, 46]) \<le> max_token \<longrightarrow>
    process_document ct txt_file file_name
      [[76, 117, 7853, 116, 32, 88], [272, 105, 7873, 117, 32, 49], [65],
       [272, 105, 7873, 117, 32, 49], [66]] max_token =
      Inr [\<lparr>source_file = txt_file, url = [],
            out_token_length = ct [76, 117, 7853, 116, 32, 88, 32, 272, 105, 7873, 117, 32, 49, 46,
             272, 105, 7873, 117, 32, 49, 32, 65, 46,
             272, 105, 7873, 117, 32, 49, 32, 66, 46],
            out_chunk_content =
              [76, 117, 7853, 116, 32, 88, 32, 272, 105, 7873, 117, 32, 49, 46, 32,
             272, 105, 7873, 117, 32, 49, 32, 65, 46, 32,
             272, 105, 7873, 117, 32, 49, 32, 66, 46]\<rparr>])"
  by (simp add: example_tree process_document_def create_chunks_from_tree_def final_chunks_def
      root_node_def merge_lines_def ep_eval)

theorem example_lines_witness:
  "int (length [76, 117, 7853, 116, 32, 88, 32, 272, 105, 7873, 117, 32, 49, 46,
             272, 105, 7873, 117, 32, 49, 32, 65, 46,
             272, 105, 7873, 117, 32, 49, 32, 66, 46]) \<le> 800 \<and>
   process_document length [] []
      [[76, 117, 7853, 116, 32, 88], [272, 105, 7873, 117, 32, 49], [65],
       [272, 105, 7873, 117, 32, 49], [66]] 800 =
      Inr [\<lparr>source_file = [], url = [], out_token_length = 32,
            out_chunk_content =
              [76, 117, 7853, 116, 32, 88, 32, 272, 105, 7873, 117, 32, 49, 46, 32,
             272, 105, 7873, 117, 32, 49, 32, 65, 46, 32,
             272, 105, 7873, 117, 32, 49, 32, 66, 46]\<rparr>]"
  using example_lines [of length "[]" 800 "[]"] by simp

text \<open>
  Claim C6, as stated, fails: the path chunks of the five lines are not
  \<open>["Luat X.", "Dieu 1.", "A."]\<close> and \<open>["Luat X.", "Dieu 1.", "B."]\<close>, and with a
  counter that counts characters and the budget 800 the content of the chunk is not
  \<open>"Luat X. Dieu 1. A. B."\<close>.
\<close>

theorem example_lines_counterexample:
  "map chunk_content (dfs_build length [] (root_node (parse_legal_document_to_dict []
      [[76, 117, 7853, 116, 32, 88], [272, 105, 7873, 117, 32, 49], [65],
       [272, 105, 7873, 117, 32, 49], [66]]))) \<noteq>
     [[[76, 117, 7853, 116, 32, 88, 46], [272, 105, 7873, 117, 32, 49, 46], [65, 46]],
      [[76, 117, 7853, 116, 32, 88, 46], [272, 105, 7873, 117, 32, 49, 46], [66, 46]]] \<and>
   process_document length [] []
      [[76, 117, 7853, 116, 32, 88], [272, 105, 7873, 117, 32, 49], [65],
       [272, 105, 7873, 117, 32, 49], [66]] 800 =
      Inr [\<lparr>source_file = [], url = [], out_token_length = 32,
            out_chunk_content =
              [76, 117, 7853, 116, 32, 88, 32, 272, 105, 7873, 117, 32, 49, 46, 32,
             272, 105, 7873, 117, 32, 49, 32, 65, 46, 32,
             272, 105, 7873, 117, 32, 49, 32, 66, 46]\<rparr>] \<and>
   [76, 117, 7853, 116, 32, 88, 32, 272, 105, 7873, 117, 32, 49, 46, 32,
             272, 105, 7873, 117, 32, 49, 32, 65, 46, 32,
             272, 105, 7873, 117, 32, 49, 32, 66, 46] \<noteq>
     [76, 117, 7853, 116, 32, 88, 46, 32, 272, 105, 7873, 117, 32, 49, 46, 32, 65, 46, 32,
      66, 46 :: nat]"
  by (simp add: example_tree process_document_def create_chunks_from_tree_def final_chunks_def
      root_node_def merge_lines_def ep_eval)

section \<open>Properties of the tree builder\<close>

lemma first_match_level:
  "first_match tbl line = Some lvl \<Longrightarrow> lvl \<in> set (map (\<lambda>(r, l, ic). l) tbl)"
  by (induction tbl line rule: first_match.induct) (auto split: if_splits)

lemma match_level_positive: "match_level line = Some lvl \<Longrightarrow> 0 < lvl"
  using first_match_level [of REGEX_LEVEL_MAP line lvl]
  by (auto simp: match_level_def REGEX_LEVEL_MAP_def)

lemma add_node_unfold:
  "add_node lvl line b =
     b\<lparr>nodes := (nodes b)[parent_of lvl b := (nodes b ! parent_of lvl b)
                   \<lparr>p_children := p_children (nodes b ! parent_of lvl b) @ [length (nodes b)]\<rparr>]
                 @ [\<lparr>p_level = lvl, p_content = line, p_children = []\<rparr>],
       stack := length (nodes b) # popped lvl b\<rparr>"
  by (simp add: add_node_def popped_def parent_of_def Let_def)

lemma popped_below:
  assumes "sorted_wrt (\<lambda>i j. p_level (nodes b ! j) < p_level (nodes b ! i)) (stack b)"
  shows "\<forall>j \<in> set (popped lvl b). p_level (nodes b ! j) < lvl"
proof (cases "popped lvl b")
  case Nil
  then show ?thesis by simp
next
  case (Cons tp rest)
  have "\<not> lvl \<le> p_level (nodes b ! tp)"
    using Cons hd_dropWhile [of "\<lambda>i. p_level (nodes b ! i) \<ge> lvl" "stack b"]
    by (simp add: popped_def)
  moreover have "sorted_wrt (\<lambda>i j. p_level (nodes b ! j) < p_level (nodes b ! i)) (popped lvl b)"
  proof -
    have "stack b = takeWhile (\<lambda>i. p_level (nodes b ! i) \<ge> lvl) (stack b) @ popped lvl b"
      by (simp add: popped_def)
    with assms show ?thesis by (metis sorted_wrt_append)
  qed
  ultimately show ?thesis using Cons by auto
qed

lemma popped_filter:
  assumes "sorted_wrt (\<lambda>i j. p_level (nodes b ! j) < p_level (nodes b ! i)) (stack b)"
  shows "popped lvl b = filter (\<lambda>i. p_level (nodes b ! i) < lvl) (stack b)"
proof -
  let ?P = "\<lambda>i. p_level (nodes b ! i) \<ge> lvl"
  have split: "stack b = takeWhile ?P (stack b) @ popped lvl b" by (simp add: popped_def)
  have a: "filter (\<lambda>i. p_level (nodes b ! i) < lvl) (takeWhile ?P (stack b)) = []"
    by (auto simp: filter_empty_conv dest: set_takeWhileD)
  have b: "filter (\<lambda>i. p_level (nodes b ! i) < lvl) (popped lvl b) = popped lvl b"
    using popped_below [OF assms, of lvl] by (simp add: filter_id_conv)
  have "filter (\<lambda>i. p_level (nodes b ! i) < lvl) (stack b) =
      filter (\<lambda>i. p_level (nodes b ! i) < lvl) (takeWhile ?P (stack b)) @
      filter (\<lambda>i. p_level (nodes b ! i) < lvl) (popped lvl b)"
    by (subst split) (simp only: filter_append)
  with a b show ?thesis by simp
qed

lemma store_okD:
  assumes "store_ok b"
  shows "nodes b \<noteq> []" and "p_level (nodes b ! 0) = -1"
    and "\<And>i. i < length (nodes b) \<Longrightarrow> 0 < i \<Longrightarrow> 0 < p_level (nodes b ! i)"
    and "\<And>i c. i < length (nodes b) \<Longrightarrow> c \<in> set (p_children (nodes b ! i)) \<Longrightarrow>
           i < c \<and> c < length (nodes b) \<and> p_level (nodes b ! i) < p_level (nodes b ! c)"
    and "\<And>i. i \<in> set (stack b) \<Longrightarrow> 0 < i \<and> i < length (nodes b)"
    and "sorted_wrt (\<lambda>i j. p_level (nodes b ! j) < p_level (nodes b ! i)) (stack b)"
  using assms unfolding store_ok_def by blast+

lemma popped_subset: "set (popped lvl b) \<subseteq> set (stack b)"
  by (auto simp: popped_def dest: set_dropWhileD)

lemma parent_of_props:
  assumes "store_ok b" "0 < lvl"
  shows "parent_of lvl b < length (nodes b)" and "p_level (nodes b ! parent_of lvl b) < lvl"
proof -
  have below: "\<forall>j \<in> set (popped lvl b). p_level (nodes b ! j) < lvl"
    by (rule popped_below) (rule store_okD(6) [OF assms(1)])
  show "parent_of lvl b < length (nodes b)"
  proof (cases "popped lvl b")
    case Nil
    then show ?thesis using store_okD(1) [OF assms(1)] by (simp add: parent_of_def)
  next
    case (Cons tp rest)
    then have "tp \<in> set (stack b)" using popped_subset [of lvl b] by auto
    from store_okD(5) [OF assms(1) this] Cons show ?thesis by (simp add: parent_of_def)
  qed
  show "p_level (nodes b ! parent_of lvl b) < lvl"
  proof (cases "popped lvl b")
    case Nil
    then show ?thesis using store_okD(2) [OF assms(1)] assms(2) by (simp add: parent_of_def)
  next
    case (Cons tp rest)
    then show ?thesis using below by (simp add: parent_of_def)
  qed
qed

lemma add_node_nth:
  assumes "i < length (nodes b)"
  shows "p_level (nodes (add_node lvl line b) ! i) = p_level (nodes b ! i)"
    and "p_children (nodes (add_node lvl line b) ! i) =
      (if i = parent_of lvl b then p_children (nodes b ! i) @ [length (nodes b)]
       else p_children (nodes b ! i))"
  using assms
  by (cases "i = parent_of lvl b"; simp add: add_node_unfold nth_append nth_list_update)+

lemma add_node_new:
  "nodes (add_node lvl line b) ! length (nodes b) =
     \<lparr>p_level = lvl, p_content = line, p_children = []\<rparr>"
  "length (nodes (add_node lvl line b)) = Suc (length (nodes b))"
  "stack (add_node lvl line b) = length (nodes b) # popped lvl b"
  by (simp_all add: add_node_unfold nth_append)

lemma store_ok_add_node:
  assumes ok: "store_ok b" and pos: "0 < lvl"
  shows "store_ok (add_node lvl line b)"
proof -
  let ?b = "add_node lvl line b"
  let ?n = "length (nodes b)"
  note D = store_okD [OF ok]
  note P = parent_of_props [OF ok pos]
  have len: "length (nodes ?b) = Suc ?n" by (rule add_node_new)
  have lev: "\<And>i. i < Suc ?n \<Longrightarrow>
      p_level (nodes ?b ! i) = (if i = ?n then lvl else p_level (nodes b ! i))"
    using add_node_nth(1) [of _ b lvl line] add_node_new(1) [of lvl line b]
    by (auto simp: less_Suc_eq simp del: add_node_new)
  have below: "\<forall>j \<in> set (popped lvl b). p_level (nodes b ! j) < lvl"
    by (rule popped_below) (rule D(6))
  have in_range: "\<And>j. j \<in> set (popped lvl b) \<Longrightarrow> 0 < j"
    "\<And>j. j \<in> set (popped lvl b) \<Longrightarrow> j < ?n"
    "\<And>j. j \<in> set (popped lvl b) \<Longrightarrow> j < Suc ?n"
    using popped_subset [of lvl b] D(5) by (blast, blast, force)
  have c1: "nodes ?b \<noteq> []" using len by auto
  have c2: "p_level (nodes ?b ! 0) = -1"
    using lev [of 0] D(1) D(2) by simp
  have c3: "\<forall>i < length (nodes ?b). 0 < i \<longrightarrow> 0 < p_level (nodes ?b ! i)"
    unfolding len using lev D(3) pos by (auto simp: less_Suc_eq)
  have c4: "\<forall>i < length (nodes ?b). \<forall>c \<in> set (p_children (nodes ?b ! i)).
        i < c \<and> c < length (nodes ?b) \<and> p_level (nodes ?b ! i) < p_level (nodes ?b ! c)"
  proof (intro allI impI ballI)
    fix i c
    assume i: "i < length (nodes ?b)" and c: "c \<in> set (p_children (nodes ?b ! i))"
    show "i < c \<and> c < length (nodes ?b) \<and> p_level (nodes ?b ! i) < p_level (nodes ?b ! c)"
    proof (cases "i = ?n")
      case True
      with c show ?thesis using add_node_new(1) [of lvl line b] by simp
    next
      case False
      with i len have i': "i < ?n" by simp
      from c add_node_nth(2) [OF i', of lvl line]
      consider "c \<in> set (p_children (nodes b ! i))" | "i = parent_of lvl b" "c = ?n"
        by (auto split: if_splits)
      then show ?thesis
      proof cases
        case 1
        from D(4) [OF i' 1] show ?thesis
          using lev [of i] lev [of c] i' unfolding len by auto
      next
        case 2
        then show ?thesis using P(2) lev [of i] lev [of ?n] i' unfolding len by auto
      qed
    qed
  qed
  have c5: "\<forall>i \<in> set (stack ?b). 0 < i \<and> i < length (nodes ?b)"
    unfolding len add_node_new(3) using in_range D(1) by auto
  have c6: "sorted_wrt (\<lambda>i j. p_level (nodes ?b ! j) < p_level (nodes ?b ! i)) (stack ?b)"
  proof -
    have s0: "sorted_wrt (\<lambda>i j. p_level (nodes b ! j) < p_level (nodes b ! i)) (popped lvl b)"
    proof -
      have "stack b = takeWhile (\<lambda>i. p_level (nodes b ! i) \<ge> lvl) (stack b) @ popped lvl b"
        by (simp add: popped_def)
      with D(6) show ?thesis by (metis sorted_wrt_append)
    qed
    have old: "\<And>j. j \<in> set (popped lvl b) \<Longrightarrow>
        p_level (nodes ?b ! j) = p_level (nodes b ! j)"
      by (rule add_node_nth(1)) (rule in_range(2))
    have s1: "sorted_wrt (\<lambda>i j. p_level (nodes ?b ! j) < p_level (nodes ?b ! i)) (popped lvl b)"
      by (rule sorted_wrt_mono_rel [OF _ s0]) (simp add: old)
    have "p_level (nodes ?b ! ?n) = lvl" using lev [of ?n] by simp
    then have s2: "\<forall>j \<in> set (popped lvl b). p_level (nodes ?b ! j) < p_level (nodes ?b ! ?n)"
      using below old by simp
    show ?thesis unfolding add_node_new(3) using s1 s2 by simp
  qed
  from c1 c2 c3 c4 c5 c6 show ?thesis unfolding store_ok_def by blast
qed

lemma add_text_nth:
  "length (nodes (add_text line b)) = length (nodes b)"
  "stack (add_text line b) = stack b"
  "i < length (nodes b) \<Longrightarrow> p_level (nodes (add_text line b) ! i) = p_level (nodes b ! i)"
  "i < length (nodes b) \<Longrightarrow>
     p_children (nodes (add_text line b) ! i) = p_children (nodes b ! i)"
proof -
  show "length (nodes (add_text line b)) = length (nodes b)"
    by (simp add: add_text_def split: list.splits)
  show "stack (add_text line b) = stack b"
    by (simp add: add_text_def split: list.splits)
  show "i < length (nodes b) \<Longrightarrow> p_level (nodes (add_text line b) ! i) = p_level (nodes b ! i)"
    by (cases "stack b"; cases "hd (stack b) = i"; simp add: add_text_def nth_list_update)
  show "i < length (nodes b) \<Longrightarrow>
     p_children (nodes (add_text line b) ! i) = p_children (nodes b ! i)"
    by (cases "stack b"; cases "hd (stack b) = i"; simp add: add_text_def nth_list_update)
qed

lemma store_ok_add_text:
  assumes "store_ok b"
  shows "store_ok (add_text line b)"
proof -
  note D = store_okD [OF assms]
  let ?b = "add_text line b"
  note len = add_text_nth(1) [of line b] and stk = add_text_nth(2) [of line b]
    and lev = add_text_nth(3) [of _ b line] and chi = add_text_nth(4) [of _ b line]
  have c1: "nodes ?b \<noteq> []" using len D(1) by (metis length_0_conv)
  have pos: "0 < length (nodes b)" using D(1) by simp
  have c2: "p_level (nodes ?b ! 0) = -1" using lev [OF pos] D(2) by simp
  have c3: "\<forall>i < length (nodes ?b). 0 < i \<longrightarrow> 0 < p_level (nodes ?b ! i)"
    unfolding len using lev D(3) by simp
  have c4: "\<forall>i < length (nodes ?b). \<forall>c \<in> set (p_children (nodes ?b ! i)).
        i < c \<and> c < length (nodes ?b) \<and> p_level (nodes ?b ! i) < p_level (nodes ?b ! c)"
  proof (intro allI impI ballI)
    fix i c
    assume "i < length (nodes ?b)" and "c \<in> set (p_children (nodes ?b ! i))"
    then have i: "i < length (nodes b)" and c: "c \<in> set (p_children (nodes b ! i))"
      using len chi by simp_all
    from D(4) [OF i c] have "c < length (nodes b)" by simp
    with D(4) [OF i c] show
      "i < c \<and> c < length (nodes ?b) \<and> p_level (nodes ?b ! i) < p_level (nodes ?b ! c)"
      using lev [OF i] lev [of c] len by simp
  qed
  have c5: "\<forall>i \<in> set (stack ?b). 0 < i \<and> i < length (nodes ?b)"
    unfolding len stk using D(5) by blast
  have c6: "sorted_wrt (\<lambda>i j. p_level (nodes ?b ! j) < p_level (nodes ?b ! i)) (stack ?b)"
    unfolding stk
  proof (rule sorted_wrt_mono_rel [OF _ D(6)])
    fix x y
    assume "x \<in> set (stack b)" "y \<in> set (stack b)"
      and "p_level (nodes b ! y) < p_level (nodes b ! x)"
    then show "p_level (nodes ?b ! y) < p_level (nodes ?b ! x)"
      using D(5) lev by simp
  qed
  from c1 c2 c3 c4 c5 c6 show ?thesis unfolding store_ok_def by blast
qed

lemma store_ok_init: "store_ok init_builder"
  by (simp add: store_ok_def init_builder_def)

lemma store_ok_process_line: "store_ok b \<Longrightarrow> store_ok (process_line b line)"
  by (auto simp: process_line_def store_ok_add_node store_ok_add_text match_level_positive
      split: option.splits)

lemma store_ok_foldl: "store_ok b \<Longrightarrow> store_ok (foldl process_line b ls)"
  by (induction ls arbitrary: b) (simp_all add: store_ok_process_line)

lemma store_ok_build: "store_ok (build ls)"
  by (simp add: build_def store_ok_foldl store_ok_init)

lemma build_children_forward:
  assumes "i < length (nodes (build ls))"
  shows "filter (\<lambda>c. i < c \<and> c < length (nodes (build ls))) (p_children (nodes (build ls) ! i)) =
     p_children (nodes (build ls) ! i)"
proof (rule filter_True)
  show "\<forall>c \<in> set (p_children (nodes (build ls) ! i)). i < c \<and> c < length (nodes (build ls))"
    using store_okD(4) [OF store_ok_build assms] by blast
qed

lemma tree_of_levels:
  "(\<forall>i < length ns. \<forall>c \<in> set (p_children (ns ! i)).
      i < c \<and> c < length ns \<and> p_level (ns ! i) < p_level (ns ! c)) \<Longrightarrow>
   i < length ns \<Longrightarrow> levels_increase (tree_of ns i)"
proof (induction ns i rule: tree_of.induct)
  case (1 ns i)
  have "\<forall>c \<in> set (filter (\<lambda>c. i < c \<and> c < length ns) (p_children (ns ! i))).
      p_level (ns ! i) < level (tree_of ns c) \<and> levels_increase (tree_of ns c)"
  proof
    fix c
    assume c: "c \<in> set (filter (\<lambda>c. i < c \<and> c < length ns) (p_children (ns ! i)))"
    then have c': "c \<in> set (p_children (ns ! i))" and cl: "c < length ns" by simp_all
    have "level (tree_of ns c) = p_level (ns ! c)" by (subst tree_of.simps) simp
    moreover have "levels_increase (tree_of ns c)" using "1.IH" [OF c "1.prems"(1) cl] .
    moreover have "p_level (ns ! i) < p_level (ns ! c)" using "1.prems" c' by blast
    ultimately show "p_level (ns ! i) < level (tree_of ns c) \<and> levels_increase (tree_of ns c)"
      by simp
  qed
  then show ?case by (subst tree_of.simps) simp
qed

lemma parse_tree_levels:
  "levels_increase (Node (-1) [] (tree_content (parse_legal_document_to_dict file_name lines)))"
proof -
  define ls where "ls = (case find_appendix lines 0 of None \<Rightarrow> lines | Some k \<Rightarrow> take k lines)"
  note D = store_okD [OF store_ok_build [of ls]]
  have pos: "0 < length (nodes (build ls))" using D(1) by simp
  have fwd: "\<forall>i < length (nodes (build ls)). \<forall>c \<in> set (p_children (nodes (build ls) ! i)).
      i < c \<and> c < length (nodes (build ls)) \<and>
      p_level (nodes (build ls) ! i) < p_level (nodes (build ls) ! c)"
    using D(4) by blast
  have inc: "levels_increase (tree_of (nodes (build ls)) 0)"
    by (rule tree_of_levels [OF fwd pos])
  obtain c ch where t: "tree_of (nodes (build ls)) 0 = Node (-1) c ch"
    using D(2) tree_of.simps [of "nodes (build ls)" 0] by simp
  from inc have "levels_increase (Node (-1) [] ch)" unfolding t by simp
  moreover have "tree_content (parse_legal_document_to_dict file_name lines) = ch"
    using t by (simp add: parse_legal_document_to_dict_def Let_def ls_def)
  ultimately show ?thesis by simp
qed

lemma process_line_matched:
  assumes "match_level line = Some lvl"
  shows "stack (process_line (build ls) line) =
      length (nodes (build ls)) #
        filter (\<lambda>i. p_level (nodes (build ls) ! i) < lvl) (stack (build ls))"
    and "nodes (process_line (build ls) line) ! length (nodes (build ls)) =
      \<lparr>p_level = lvl, p_content = line, p_children = []\<rparr>"
    and "p_children (nodes (process_line (build ls) line) !
        (case filter (\<lambda>i. p_level (nodes (build ls) ! i) < lvl) (stack (build ls)) of
           [] \<Rightarrow> 0 | tp # _ \<Rightarrow> tp)) =
      p_children (nodes (build ls) !
        (case filter (\<lambda>i. p_level (nodes (build ls) ! i) < lvl) (stack (build ls)) of
           [] \<Rightarrow> 0 | tp # _ \<Rightarrow> tp)) @ [length (nodes (build ls))]"
proof -
  let ?b = "build ls"
  note D = store_okD [OF store_ok_build [of ls]]
  have pl: "process_line ?b line = add_node lvl line ?b" using assms by (simp add: process_line_def)
  have pf: "popped lvl ?b = filter (\<lambda>i. p_level (nodes ?b ! i) < lvl) (stack ?b)"
    by (rule popped_filter [OF D(6)])
  have par: "parent_of lvl ?b =
      (case filter (\<lambda>i. p_level (nodes ?b ! i) < lvl) (stack ?b) of [] \<Rightarrow> 0 | tp # _ \<Rightarrow> tp)"
    by (simp add: parent_of_def pf)
  have pp: "parent_of lvl ?b < length (nodes ?b)"
    by (rule parent_of_props(1) [OF store_ok_build match_level_positive [OF assms]])
  show "stack (process_line ?b line) =
      length (nodes ?b) # filter (\<lambda>i. p_level (nodes ?b ! i) < lvl) (stack ?b)"
    unfolding pl add_node_new(3) pf ..
  show "nodes (process_line ?b line) ! length (nodes ?b) =
      \<lparr>p_level = lvl, p_content = line, p_children = []\<rparr>"
    unfolding pl by (rule add_node_new(1))
  show "p_children (nodes (process_line ?b line) !
        (case filter (\<lambda>i. p_level (nodes ?b ! i) < lvl) (stack ?b) of [] \<Rightarrow> 0 | tp # _ \<Rightarrow> tp)) =
      p_children (nodes ?b !
        (case filter (\<lambda>i. p_level (nodes ?b ! i) < lvl) (stack ?b) of [] \<Rightarrow> 0 | tp # _ \<Rightarrow> tp))
        @ [length (nodes ?b)]"
    unfolding pl par [symmetric] using add_node_nth(2) [OF pp, of lvl line] by simp
qed

text \<open>
  Claim C7. In the tree the parser returns, under the root of level \<open>-1\<close>, every node
  has a greater level than its parent. When a line is matched at level \<open>lvl\<close> in a
  state the builder has reached, the new stack is the new node on top of exactly the
  old entries of level below \<open>lvl\<close> (every entry of level \<open>lvl\<close> or more is popped), the
  new node has that level, the line as content and no children, and it is appended as
  the last child of the top of the remaining stack, or of the root (index 0) when
  nothing remains.
\<close>

theorem depth_ordering:
  "levels_increase (Node (-1) [] (tree_content (parse_legal_document_to_dict file_name lines))) \<and>
   (match_level line = Some lvl \<longrightarrow>
      stack (process_line (build ls) line) =
        length (nodes (build ls)) #
          filter (\<lambda>i. p_level (nodes (build ls) ! i) < lvl) (stack (build ls)) \<and>
      nodes (process_line (build ls) line) ! length (nodes (build ls)) =
        \<lparr>p_level = lvl, p_content = line, p_children = []\<rparr> \<and>
      p_children (nodes (process_line (build ls) line) !
          (case filter (\<lambda>i. p_level (nodes (build ls) ! i) < lvl) (stack (build ls)) of
             [] \<Rightarrow> 0 | tp # _ \<Rightarrow> tp)) =
        p_children (nodes (build ls) !
          (case filter (\<lambda>i. p_level (nodes (build ls) ! i) < lvl) (stack (build ls)) of
             [] \<Rightarrow> 0 | tp # _ \<Rightarrow> tp)) @ [length (nodes (build ls))])"
  using parse_tree_levels [of file_name lines] process_line_matched [of line lvl ls]
  by blast

theorem depth_ordering_witness:
  "match_level [272, 105, 7873, 117, 32, 50] = Some 5 \<and>
   stack (build [[67, 72, 431, 416, 78, 71, 32, 73, 73], [272, 105, 7873, 117, 32, 49],
                 [49, 46]]) = [3, 2, 1] \<and>
   stack (process_line
      (build [[67, 72, 431, 416, 78, 71, 32, 73, 73], [272, 105, 7873, 117, 32, 49], [49, 46]])
      [272, 105, 7873, 117, 32, 50]) = [4, 1] \<and>
   tree_content (parse_legal_document_to_dict []
      [[67, 72, 431, 416, 78, 71, 32, 73, 73], [272, 105, 7873, 117, 32, 49], [49, 46],
       [272, 105, 7873, 117, 32, 50]]) =
     [Node 2 [67, 72, 431, 416, 78, 71, 32, 73, 73]
        [Node 5 [272, 105, 7873, 117, 32, 49] [Node 12 [49, 46] []],
         Node 5 [272, 105, 7873, 117, 32, 50] []]]"
proof -
  let ?ls = "[[67, 72, 431, 416, 78, 71, 32, 73, 73], [272, 105, 7873, 117, 32, 49], [49, 46]]"
  let ?line = "[272, 105, 7873, 117, 32, 50]"
  have m: "match_level ?line = Some 5" by (simp add: rx_eval)
  have ml: "match_level [67, 72, 431, 416, 78, 71, 32, 73, 73] = Some 2"
    "match_level [272, 105, 7873, 117, 32, 49] = Some 5" "match_level [49, 46] = Some 12"
    by (simp_all add: rx_eval)
  have b: "build ?ls =
    \<lparr>nodes = [\<lparr>p_level = -1, p_content = [], p_children = [1]\<rparr>,
              \<lparr>p_level = 2, p_content = [67, 72, 431, 416, 78, 71, 32, 73, 73], p_children = [2]\<rparr>,
              \<lparr>p_level = 5, p_content = [272, 105, 7873, 117, 32, 49], p_children = [3]\<rparr>,
              \<lparr>p_level = 12, p_content = [49, 46], p_children = []\<rparr>],
     stack = [3, 2, 1], non_saved_lines = []\<rparr>"
    by (simp add: build_def init_builder_def process_line_def add_node_def ml Let_def)
  have t: "tree_content (parse_legal_document_to_dict [] (?ls @ [?line])) =
     [Node 2 [67, 72, 431, 416, 78, 71, 32, 73, 73]
        [Node 5 [272, 105, 7873, 117, 32, 49] [Node 12 [49, 46] []],
         Node 5 [272, 105, 7873, 117, 32, 50] []]]"
    by (simp add: parse_eval ml m Let_def w_phu_luc_def appendix_regex_def re_match_def ci_eq_def
        to_lower_def extra_cases_def isspace_def)
  from depth_ordering [of "[]" "?ls @ [?line]" ?line 5 ?ls] m
  have "stack (process_line (build ?ls) ?line) =
      length (nodes (build ?ls)) #
        filter (\<lambda>i. p_level (nodes (build ?ls) ! i) < 5) (stack (build ?ls))"
    by blast
  then have "stack (process_line (build ?ls) ?line) = [4, 1]" unfolding b by simp
  with m b t show ?thesis by simp
qed

section \<open>Appendix truncation\<close>

lemma find_appendix_Some:
  "find_appendix ls i = Some k \<Longrightarrow>
   i \<le> k \<and> k - i < length ls \<and>
   re_match True appendix_regex (strip (lower (ls ! (k - i)))) \<and>
   (\<forall>j < k - i. \<not> re_match True appendix_regex (strip (lower (ls ! j)))) \<and>
   find_appendix (take (k - i) ls) i = None"
proof (induction ls arbitrary: i)
  case Nil
  then show ?case by simp
next
  case (Cons l ls)
  show ?case
  proof (cases "re_match True appendix_regex (strip (lower l))")
    case True
    with Cons.prems show ?thesis by simp
  next
    case False
    with Cons.prems have rec: "find_appendix ls (i + 1) = Some k" by simp
    from Cons.IH [OF rec] have ih: "i + 1 \<le> k" "k - (i + 1) < length ls"
      "re_match True appendix_regex (strip (lower (ls ! (k - (i + 1)))))"
      "\<forall>j < k - (i + 1). \<not> re_match True appendix_regex (strip (lower (ls ! j)))"
      "find_appendix (take (k - (i + 1)) ls) (i + 1) = None" by simp_all
    from ih(1) have eq: "k - i = Suc (k - (i + 1))" by simp
    have "\<forall>j < k - i. \<not> re_match True appendix_regex (strip (lower ((l # ls) ! j)))"
    proof (intro allI impI)
      fix j assume "j < k - i"
      then show "\<not> re_match True appendix_regex (strip (lower ((l # ls) ! j)))"
        using False ih(4) eq by (cases j) simp_all
    qed
    then show ?thesis using ih False unfolding eq by simp
  qed
qed

lemma dfs_build_sound:
  "c \<in> set (dfs_build ct path n) \<Longrightarrow>
   set (chunk_content c) \<subseteq> set path \<union> ensure_punctuation ` set (extract_all_node_texts n)"
proof (induction ct path n arbitrary: c rule: dfs_build.induct)
  case (1 ct path l t ch)
  show ?case
  proof (cases "ch = []")
    case True
    with "1.prems" show ?thesis by simp
  next
    case False
    with "1.prems" obtain k where k: "k \<in> set ch"
      "c \<in> set (dfs_build ct (path @ [ensure_punctuation t]) k)" by (auto simp: Let_def)
    from "1.IH" [OF refl False k] k(1) show ?thesis by auto
  qed
qed

lemma absorb_sound:
  "chunk_norm cur \<Longrightarrow> \<forall>c \<in> set rest. chunk_norm c \<Longrightarrow>
   set (chunk_content (fst (absorb ct mx cur rest))) \<subseteq>
     set (chunk_content cur) \<union> (\<Union>c \<in> set rest. set (chunk_content c))"
proof (induction rest arbitrary: cur)
  case Nil
  then show ?case by simp
next
  case (Cons nxt rest)
  let ?ml = "merge_lines (chunk_content cur) (chunk_content nxt)"
  let ?m = "\<lparr>chunk_content = ?ml, token_length = ct (concat ?ml)\<rparr>"
  show ?case
  proof (cases "int (ct (concat ?ml)) \<le> mx")
    case False
    then show ?thesis by (simp add: Let_def)
  next
    case True
    then have eq: "absorb ct mx cur (nxt # rest) = absorb ct mx ?m rest" by (simp add: Let_def)
    have nm: "chunk_norm ?m" by (simp add: chunk_norm_def normalised_merge_lines)
    from Cons.prems have ncur: "normalised (chunk_content cur)"
      and nnxt: "normalised (chunk_content nxt)" by (simp_all add: chunk_norm_def)
    have sm: "set ?ml = set (chunk_content cur) \<union> set (chunk_content nxt)"
    proof -
      have "ensure_punctuation ` (set (chunk_content cur) \<union> set (chunk_content nxt)) =
          id ` (set (chunk_content cur) \<union> set (chunk_content nxt))"
        using ncur nnxt by (intro image_cong) (auto simp: normalised_def)
      then show ?thesis by (simp add: set_merge_lines)
    qed
    from Cons.prems have "\<forall>c \<in> set rest. chunk_norm c" by simp
    from Cons.IH [OF nm this] sm show ?thesis unfolding eq by auto
  qed
qed

lemma merge_chunks_sound:
  "\<forall>c \<in> set cs. chunk_norm c \<Longrightarrow> f \<in> set (merge_chunks ct mx cs) \<Longrightarrow>
   set (chunk_content f) \<subseteq> (\<Union>c \<in> set cs. set (chunk_content c))"
proof (induction ct mx cs arbitrary: f rule: merge_chunks.induct)
  case (1 ct mx)
  then show ?case by simp
next
  case (2 ct mx c0 rest)
  from "2.prems"(1) have n0: "chunk_norm c0" and nr: "\<forall>c \<in> set rest. chunk_norm c" by simp_all
  from absorb_suffix [of ct mx c0 rest] obtain k where
    k: "snd (absorb ct mx c0 rest) = drop k rest" by blast
  from "2.prems"(2) consider "f = fst (absorb ct mx c0 rest)"
    | "f \<in> set (merge_chunks ct mx (snd (absorb ct mx c0 rest)))" by auto
  then show ?case
  proof cases
    case 1
    with absorb_sound [OF n0 nr, of ct mx] show ?thesis by auto
  next
    case 2
    have nd: "\<forall>c \<in> set (snd (absorb ct mx c0 rest)). chunk_norm c"
      using nr k by (auto dest: in_set_dropD)
    from "2.IH" [OF nd 2] have
      "set (chunk_content f) \<subseteq> (\<Union>c \<in> set (drop k rest). set (chunk_content c))"
      unfolding k .
    then show ?thesis by (auto dest: in_set_dropD)
  qed
qed

lemma final_chunks_sound:
  assumes "f \<in> set (final_chunks ct mx td)" "l \<in> set (chunk_content f)"
  shows "l = ensure_punctuation (ten_van_ban td) \<or>
     l \<in> ensure_punctuation ` set (concat (map extract_all_node_texts (tree_content td)))"
proof -
  let ?cs = "dfs_build ct [] (root_node td)"
  have "\<forall>c \<in> set ?cs. chunk_norm c" by (rule dfs_build_norm) (simp add: normalised_def)
  from merge_chunks_sound [OF this, of f ct mx] assms obtain c where
    c: "c \<in> set ?cs" "l \<in> set (chunk_content c)" by (auto simp: final_chunks_def)
  from dfs_build_sound [OF c(1)] c(2)
  have "l \<in> ensure_punctuation ` set (extract_all_node_texts (root_node td))" by auto
  then show ?thesis by (auto simp: root_node_def)
qed

lemma parse_truncated:
  assumes "find_appendix lines 0 = Some k"
  shows "tree_content (parse_legal_document_to_dict file_name lines) =
      tree_content (parse_legal_document_to_dict file_name (take k lines))"
    and "noi_dung_khong_luu (parse_legal_document_to_dict file_name lines) =
      noi_dung_khong_luu (parse_legal_document_to_dict file_name (take k lines))"
proof -
  from find_appendix_Some [OF assms] have none: "find_appendix (take k lines) 0 = None" by simp
  show "tree_content (parse_legal_document_to_dict file_name lines) =
      tree_content (parse_legal_document_to_dict file_name (take k lines))"
    using assms none by (simp add: parse_legal_document_to_dict_def Let_def)
  show "noi_dung_khong_luu (parse_legal_document_to_dict file_name lines) =
      noi_dung_khong_luu (parse_legal_document_to_dict file_name (take k lines))"
    using assms none by (simp add: parse_legal_document_to_dict_def Let_def)
qed

text \<open>
  The part of the truncation that the tree path carries out. When the first line that
  the appendix pattern matches (after lowercasing and stripping) is at position \<open>k\<close>, the
  tree and the unsaved lines are those of the document cut to \<open>lines[0:k]\<close>, and every
  line of a final chunk other than the title is the normalised content of a node of
  that tree.
\<close>

lemma tree_truncated:
  assumes "find_appendix lines 0 = Some k"
  shows "k < length lines \<and>
     re_match True appendix_regex (strip (lower (lines ! k))) \<and>
     (\<forall>i < k. \<not> re_match True appendix_regex (strip (lower (lines ! i)))) \<and>
     tree_content (parse_legal_document_to_dict file_name lines) =
       tree_content (parse_legal_document_to_dict file_name (take k lines)) \<and>
     noi_dung_khong_luu (parse_legal_document_to_dict file_name lines) =
       noi_dung_khong_luu (parse_legal_document_to_dict file_name (take k lines)) \<and>
     (\<forall>f \<in> set (final_chunks ct max_token (parse_legal_document_to_dict file_name lines)).
        \<forall>l \<in> set (chunk_content f).
          l = ensure_punctuation (ten_van_ban (parse_legal_document_to_dict file_name lines)) \<or>
          l \<in> ensure_punctuation ` set (concat (map extract_all_node_texts
                (tree_content (parse_legal_document_to_dict file_name (take k lines))))))"
proof -
  from find_appendix_Some [OF assms] have a: "k < length lines"
    "re_match True appendix_regex (strip (lower (lines ! k)))"
    "\<forall>i < k. \<not> re_match True appendix_regex (strip (lower (lines ! i)))" by simp_all
  note t = parse_truncated [OF assms, of file_name]
  have "\<forall>f \<in> set (final_chunks ct max_token (parse_legal_document_to_dict file_name lines)).
        \<forall>l \<in> set (chunk_content f).
          l = ensure_punctuation (ten_van_ban (parse_legal_document_to_dict file_name lines)) \<or>
          l \<in> ensure_punctuation ` set (concat (map extract_all_node_texts
                (tree_content (parse_legal_document_to_dict file_name (take k lines)))))"
    using final_chunks_sound [of _ ct max_token "parse_legal_document_to_dict file_name lines"]
    unfolding t(1) by blast
  with a t show ?thesis by blast
qed

text \<open>
  Claim C9. No emitted chunk should contain text of a line at or after the first
  appendix line, the title included. The code sets out to do this (its comment before
  the appendix loop reads "Remove appendix if exists") and breaks it: the title is
  found before the lines are cut. For the five lines \<open>"Dieu 1"\<close>, \<open>"x"\<close>, \<open>"Phu luc I"\<close>, \<open>"Nghi dinh 5"\<close>,
  \<open>"bi mat"\<close> (with their diacritics) the appendix starts at position 2, the title is
  \<open>"Nghi dinh 5 bi mat"\<close>, made of the lines at positions 3 and 4, and the single chunk
  returned has the content \<open>"Nghi dinh 5 bi mat. Dieu 1 x."\<close>, which contains both lines.
\<close>

theorem appendix_text_in_title:
  "find_appendix
     [[272, 105, 7873, 117, 32, 49],
      [120],
      [80, 104, 7909, 32, 108, 7909, 99, 32, 73],
      [78, 103, 104, 7883, 32, 273, 7883, 110, 104, 32, 53],
      [98, 237, 32, 109, 7853, 116]] 0 = Some 2 \<and>
   ten_van_ban (parse_legal_document_to_dict []
     [[272, 105, 7873, 117, 32, 49],
      [120],
      [80, 104, 7909, 32, 108, 7909, 99, 32, 73],
      [78, 103, 104, 7883, 32, 273, 7883, 110, 104, 32, 53],
      [98, 237, 32, 109, 7853, 116]]) =
     [78, 103, 104, 7883, 32, 273, 7883, 110, 104, 32, 53, 32, 98, 237, 32, 109, 7853, 116] \<and>
   process_document length [] []
     [[272, 105, 7873, 117, 32, 49],
      [120],
      [80, 104, 7909, 32, 108, 7909, 99, 32, 73],
      [78, 103, 104, 7883, 32, 273, 7883, 110, 104, 32, 53],
      [98, 237, 32, 109, 7853, 116]] 800 =
     Inr [\<lparr>source_file = [], url = [], out_token_length = 28,
           out_chunk_content =
             [78, 103, 104, 7883, 32, 273, 7883, 110, 104, 32, 53, 32, 98, 237, 32, 109, 7853, 116, 46, 32, 272, 105, 7873, 117, 32, 49, 32, 120, 46]\<rparr>] \<and>
   contains ([[272, 105, 7873, 117, 32, 49],
      [120],
      [80, 104, 7909, 32, 108, 7909, 99, 32, 73],
      [78, 103, 104, 7883, 32, 273, 7883, 110, 104, 32, 53],
      [98, 237, 32, 109, 7853, 116]] ! 3)
     [78, 103, 104, 7883, 32, 273, 7883, 110, 104, 32, 53, 32, 98, 237, 32, 109, 7853, 116, 46, 32, 272, 105, 7873, 117, 32, 49, 32, 120, 46] \<and>
   contains ([[272, 105, 7873, 117, 32, 49],
      [120],
      [80, 104, 7909, 32, 108, 7909, 99, 32, 73],
      [78, 103, 104, 7883, 32, 273, 7883, 110, 104, 32, 53],
      [98, 237, 32, 109, 7853, 116]] ! 4)
     [78, 103, 104, 7883, 32, 273, 7883, 110, 104, 32, 53, 32, 98, 237, 32, 109, 7853, 116, 46, 32, 272, 105, 7873, 117, 32, 49, 32, 120, 46]"
  by (simp add: process_document_def create_chunks_from_tree_def final_chunks_def
      root_node_def merge_lines_def ep_eval parse_eval rx_eval)

end
